theory Spec2Isabelle
  imports Main "HOL-Library.Sublist"
begin

section \<open>The node updater of the autoscaler (python/ray/autoscaler/updater.py)\<close>

text \<open>
  The module drives one remote node to its desired state through its collaborators:
  the cloud provider (tags, addresses, termination), a process runner (local \<open>ssh\<close>,
  \<open>kubectl\<close>, \<open>rsync\<close> processes), the local file system and the clock. The
  embedding threads an explicit
  state through every method. The state holds the clock, the log of the calls made so far
  (each with the reply it got) and the two attributes the objects mutate
  (\<open>SSHCommandRunner.ssh_ip\<close> and \<open>exitcode\<close>). A raised exception is the \<open>Inl\<close>
  of the result, and the state at the raise is returned with it, since a handler goes on
  from there.

  What the collaborators answer is not fixed by the module, so it is a parameter: an
  environment of functions from the log so far to the next reply. Any run against a real
  provider and real processes is the run of some such environment.
\<close>

subsection \<open>Strings: \<open>str\<close>, \<open>join\<close>, \<open>shlex.quote\<close>, \<open>os.path.dirname\<close>\<close>

definition digit_char :: "nat \<Rightarrow> char" where
  "digit_char n = ''0123456789'' ! n"

fun str_nat :: "nat \<Rightarrow> string" where
  "str_nat n = (if n < 10 then [digit_char n] else str_nat (n div 10) @ [digit_char (n mod 10)])"

declare str_nat.simps [simp del]

text \<open>\<open>str(i)\<close> for a Python integer.\<close>

definition str_int :: "int \<Rightarrow> string" where
  "str_int i = (if i < 0 then CHR ''-'' # str_nat (nat (- i)) else str_nat (nat i))"

text \<open>\<open>sep.join(xs)\<close>.\<close>

fun join :: "string \<Rightarrow> string list \<Rightarrow> string" where
  "join sep [] = []"
| "join sep [x] = x"
| "join sep (x # y # ys) = x @ sep @ join sep (y # ys)"

text \<open>
  \<open>shlex.quote\<close> of the standard library: the empty string becomes two apostrophes, a
  string of safe characters (\<open>[A-Za-z0-9_@%+=:,./-]\<close>) is returned as it is, anything
  else is wrapped in apostrophes with each inner apostrophe written \<open>'"'"'\<close>.
\<close>

definition is_safe_char :: "char \<Rightarrow> bool" where
  "is_safe_char c \<longleftrightarrow>
     (let n = (of_char c :: nat) in
        (48 \<le> n \<and> n \<le> 57) \<or> (65 \<le> n \<and> n \<le> 90) \<or> (97 \<le> n \<and> n \<le> 122)
        \<or> c \<in> set ''_@%+=:,./-'')"

definition apostrophe :: char where
  "apostrophe = CHR 0x27"

definition quote :: "string \<Rightarrow> string" where
  "quote s =
     (if s = [] then [apostrophe, apostrophe]
      else if list_all is_safe_char s then s
      else [apostrophe]
           @ concat (map (\<lambda>c. if c = apostrophe
                                then [apostrophe, CHR 0x22, apostrophe, CHR 0x22, apostrophe]
                                else [c]) s)
           @ [apostrophe])"

text \<open>\<open>s.endswith("/")\<close> and \<open>s.startswith("~")\<close>.\<close>

definition endswith_slash :: "string \<Rightarrow> bool" where
  "endswith_slash p \<longleftrightarrow> p \<noteq> [] \<and> last p = CHR ''/''"

definition startswith_tilde :: "string \<Rightarrow> bool" where
  "startswith_tilde p \<longleftrightarrow> p \<noteq> [] \<and> hd p = CHR ''~''"

text \<open>
  \<open>posixpath.dirname\<close>: the text up to and with the last slash; trailing slashes are
  then stripped unless the head consists of slashes only.
\<close>

definition rstrip_slash :: "string \<Rightarrow> string" where
  "rstrip_slash p = rev (dropWhile (\<lambda>c. c = CHR ''/'') (rev p))"

definition dirname :: "string \<Rightarrow> string" where
  "dirname p =
     (let head = rev (dropWhile (\<lambda>c. c \<noteq> CHR ''/'') (rev p))
      in if head \<noteq> [] \<and> \<not> list_all (\<lambda>c. c = CHR ''/'') head then rstrip_slash head else head)"

subsection \<open>Module constants\<close>

definition NODE_START_WAIT_S :: int where
  "NODE_START_WAIT_S = 300"

definition READY_CHECK_INTERVAL :: nat where
  "READY_CHECK_INTERVAL = 5"

text \<open>
  Modelled from the spec: the tag names and status values of \<open>ray.autoscaler.tags\<close>,
  which the module imports and which is not among the sources. The spec names the five
  statuses; the two tag keys are named after the constants.
\<close>

definition TAG_RAY_NODE_STATUS :: string where
  "TAG_RAY_NODE_STATUS = ''ray-node-status''"

definition TAG_RAY_RUNTIME_CONFIG :: string where
  "TAG_RAY_RUNTIME_CONFIG = ''ray-runtime-config''"

definition STATUS_WAITING_FOR_SSH :: string where
  "STATUS_WAITING_FOR_SSH = ''waiting_for_ssh''"

definition STATUS_SYNCING_FILES :: string where
  "STATUS_SYNCING_FILES = ''syncing_files''"

definition STATUS_SETTING_UP :: string where
  "STATUS_SETTING_UP = ''setting_up''"

definition STATUS_UP_TO_DATE :: string where
  "STATUS_UP_TO_DATE = ''up_to_date''"

definition STATUS_UPDATE_FAILED :: string where
  "STATUS_UPDATE_FAILED = ''update_failed''"

subsection \<open>Exceptions\<close>

text \<open>
  A command line is an argument vector, or one string handed to a shell
  (\<open>shell=True\<close>).
\<close>

datatype cmdline = Argv "string list" | Shell string

text \<open>
  The exceptions the module raises or lets through. \<open>CalledProcessError\<close> carries
  \<open>returncode\<close> and \<open>cmd\<close>; \<open>subprocess.TimeoutExpired\<close> carries \<open>cmd\<close> and
  \<open>timeout\<close> and has no \<open>returncode\<close>. \<open>SystemExit\<close> (raised by \<open>sys.exit\<close>) derives
  from \<open>BaseException\<close> only, so \<open>except Exception\<close> does not catch it.
\<close>

datatype error =
    CalledProcessError int cmdline
  | TimeoutExpired cmdline nat
  | FileNotFoundError string
  | AssertionError string
  | ValueError string
  | TypeError string
  | AttributeError string
  | PlainException string
  | ClickException string
  | SystemExit int

fun is_Exception :: "error \<Rightarrow> bool" where
  "is_Exception (SystemExit _) = False"
| "is_Exception _ = True"

text \<open>\<open>isinstance\<close> tests of the \<open>except\<close> clauses.\<close>

fun is_CalledProcessError :: "error \<Rightarrow> bool" where
  "is_CalledProcessError (CalledProcessError _ _) = True"
| "is_CalledProcessError _ = False"

fun is_FileNotFoundError :: "error \<Rightarrow> bool" where
  "is_FileNotFoundError (FileNotFoundError _) = True"
| "is_FileNotFoundError _ = False"

text \<open>\<open>hasattr(e, "cmd")\<close> and \<open>hasattr(e, "returncode")\<close>.\<close>

fun has_cmd :: "error \<Rightarrow> bool" where
  "has_cmd (CalledProcessError _ _) = True"
| "has_cmd (TimeoutExpired _ _) = True"
| "has_cmd _ = False"

fun has_returncode :: "error \<Rightarrow> bool" where
  "has_returncode (CalledProcessError _ _) = True"
| "has_returncode _ = False"

text \<open>\<open>" ".join(e.cmd)\<close>: over the arguments of a list, over the characters of a string.\<close>

fun join_cmd :: "cmdline \<Rightarrow> string" where
  "join_cmd (Argv xs) = join '' '' xs"
| "join_cmd (Shell c) = join '' '' (map (\<lambda>ch. [ch]) c)"

subsection \<open>The log of calls, the state and the environment\<close>

text \<open>
  The outcome of a child process: it exited with a status and an output, or the
  executable was not found.
\<close>

datatype proc_outcome = Exited int string | Missing string

text \<open>
  One entry per call on a collaborator, with its reply. \<open>Call_run\<close>,
  \<open>Call_rsync_up\<close> and \<open>Call_rsync_down\<close> record that the updater invoked its command
  runner (\<open>cmd_runner.run\<close> with its command, \<open>run_rsync_up\<close>, \<open>run_rsync_down\<close>);
  the entries that follow them are what the runner did.
  Of the logger only the \<open>error\<close> records are kept: \<open>info\<close>, \<open>debug\<close> and
  \<open>warning\<close> records and the \<open>LogTimer\<close> blocks (which log a duration and pass every
  exception on) have no effect on the control flow and are left out.
\<close>

datatype event =
    Set_node_tags string "(string \<times> string) list"
  | Node_tags string "(string \<times> string) list"
  | Is_terminated string bool
  | Internal_ip string "string option"
  | External_ip string "string option"
  | Check_call cmdline proc_outcome
  | Check_output cmdline proc_outcome
  | Popen_wait cmdline proc_outcome
  | Subprocess_run cmdline nat proc_outcome
  | Sleep int
  | Log_error string
  | Call_run "string option"
  | Call_rsync_up string string
  | Call_rsync_down string string

record state =
  clock :: int
  trace :: "event list"
  ssh_ip :: "string option"
  exitcode :: "int option"

text \<open>
  The environment. Each reply is a function of the log so far and the question.
  \<open>elapsed\<close> is the time, in seconds, that the latest entry of the log took; the clock
  never runs backwards. The clock counts whole seconds: the source reads the float
  \<open>time.time()\<close> and only adds to it and compares it. The local file system is taken
  as fixed during a run (\<open>path_exists\<close>, \<open>path_isdir\<close>). \<open>module_dir\<close> is the
  directory the module is installed in. Calls on the provider and child processes are
  taken to return.
\<close>

record env =
  elapsed :: "event list \<Rightarrow> nat"
  tags_reply :: "event list \<Rightarrow> string \<Rightarrow> (string \<times> string) list"
  terminated_reply :: "event list \<Rightarrow> string \<Rightarrow> bool"
  ip_reply :: "event list \<Rightarrow> bool \<Rightarrow> string \<Rightarrow> string option"
  proc_reply :: "event list \<Rightarrow> cmdline \<Rightarrow> proc_outcome"
  path_exists :: "string \<Rightarrow> bool"
  path_isdir :: "string \<Rightarrow> bool"
  module_dir :: string

definition record_ev :: "env \<Rightarrow> event \<Rightarrow> state \<Rightarrow> state" where
  "record_ev env ev s =
     s\<lparr>trace := trace s @ [ev], clock := clock s + int (elapsed env (trace s @ [ev]))\<rparr>"

text \<open>
  \<open>time.sleep(d)\<close> for a length \<open>d\<close> that is not negative: the clock moves on by at
  least \<open>d\<close> seconds.
\<close>

definition sleep :: "env \<Rightarrow> nat \<Rightarrow> state \<Rightarrow> state" where
  "sleep env d s = (record_ev env (Sleep (int d)) s)\<lparr>clock := clock (record_ev env (Sleep (int d)) s) + int d\<rparr>"

subsection \<open>The provider\<close>

definition set_node_tags :: "env \<Rightarrow> string \<Rightarrow> (string \<times> string) list \<Rightarrow> state \<Rightarrow> state" where
  "set_node_tags env nid tags s = record_ev env (Set_node_tags nid tags) s"

definition node_tags :: "env \<Rightarrow> string \<Rightarrow> state \<Rightarrow> (string \<times> string) list \<times> state" where
  "node_tags env nid s =
     (let r = tags_reply env (trace s) nid in (r, record_ev env (Node_tags nid r) s))"

definition is_terminated :: "env \<Rightarrow> string \<Rightarrow> state \<Rightarrow> bool \<times> state" where
  "is_terminated env nid s =
     (let r = terminated_reply env (trace s) nid in (r, record_ev env (Is_terminated nid r) s))"

definition internal_ip :: "env \<Rightarrow> string \<Rightarrow> state \<Rightarrow> string option \<times> state" where
  "internal_ip env nid s =
     (let r = ip_reply env (trace s) True nid in (r, record_ev env (Internal_ip nid r) s))"

definition external_ip :: "env \<Rightarrow> string \<Rightarrow> state \<Rightarrow> string option \<times> state" where
  "external_ip env nid s =
     (let r = ip_reply env (trace s) False nid in (r, record_ev env (External_ip nid r) s))"

subsection \<open>The process runner\<close>

text \<open>
  \<open>process_runner.check_call\<close> and \<open>check_output\<close>: a non-zero exit status raises
  \<open>CalledProcessError\<close>, a missing executable \<open>FileNotFoundError\<close>.
\<close>

definition check_call :: "env \<Rightarrow> cmdline \<Rightarrow> state \<Rightarrow> (error + unit) \<times> state" where
  "check_call env c s =
     (let out = proc_reply env (trace s) c; s1 = record_ev env (Check_call c out) s
      in case out of
           Missing msg \<Rightarrow> (Inl (FileNotFoundError msg), s1)
         | Exited rc output \<Rightarrow>
             if rc = 0 then (Inr (), s1) else (Inl (CalledProcessError rc c), s1))"

definition check_output :: "env \<Rightarrow> cmdline \<Rightarrow> state \<Rightarrow> (error + string) \<times> state" where
  "check_output env c s =
     (let out = proc_reply env (trace s) c; s1 = record_ev env (Check_output c out) s
      in case out of
           Missing msg \<Rightarrow> (Inl (FileNotFoundError msg), s1)
         | Exited rc output \<Rightarrow>
             if rc = 0 then (Inr output, s1) else (Inl (CalledProcessError rc c), s1))"

text \<open>
  The body of the \<open>try\<close> block of both \<open>run\<close> methods: \<open>check_output\<close> and its
  output when \<open>with_output\<close> is set, \<open>check_call\<close> and \<open>None\<close> otherwise.
\<close>

definition call_or_output :: "env \<Rightarrow> cmdline \<Rightarrow> bool \<Rightarrow> state \<Rightarrow> (error + string option) \<times> state" where
  "call_or_output env c with_output s =
     (if with_output then
        (case check_output env c s of
           (Inl e, s1) \<Rightarrow> (Inl e, s1)
         | (Inr output, s1) \<Rightarrow> (Inr (Some output), s1))
      else
        (case check_call env c s of
           (Inl e, s1) \<Rightarrow> (Inl e, s1)
         | (Inr _, s1) \<Rightarrow> (Inr None, s1)))"

subsection \<open>\<open>ProviderIpGetter\<close>\<close>

record provider_ip_getter =
  g_log_prefix :: string
  g_node_id :: string
  g_use_internal_ip :: bool

definition get_ip :: "env \<Rightarrow> provider_ip_getter \<Rightarrow> state \<Rightarrow> string option \<times> state" where
  "get_ip env g s =
     (if g_use_internal_ip g then internal_ip env (g_node_id g) s
      else external_ip env (g_node_id g) s)"

text \<open>
  The polling loop of \<open>wait_for_ip\<close>, for a deadline that is a number, at the default
  \<open>sleep_between_gets = 10\<close>. The clock is read first and the provider is asked only
  when the deadline has not passed. Both calls in the module (in
  \<open>SSHCommandRunner.wait_for_ip\<close> and \<open>remove_node_from_known_hosts\<close>) leave the
  interval at this default, for which the loop is a total function. The method with the
  interval as its parameter is \<open>wait_for_ip_with\<close> below.
\<close>

function wait_for_ip_loop ::
  "env \<Rightarrow> provider_ip_getter \<Rightarrow> int \<Rightarrow> state \<Rightarrow> string option \<times> state" where
  "wait_for_ip_loop env g deadline s =
     (if clock s < deadline then
        (if fst (is_terminated env (g_node_id g) s) then (None, snd (is_terminated env (g_node_id g) s))
         else (case get_ip env g (snd (is_terminated env (g_node_id g) s)) of
                 (Some ip, s2) \<Rightarrow> (Some ip, s2)
               | (None, s2) \<Rightarrow> wait_for_ip_loop env g deadline (sleep env 10 s2)))
      else (None, s))"
  by pat_completeness auto
termination
  by (relation "measure (\<lambda>(env, g, deadline, s). nat (deadline - clock s))")
     (auto simp: sleep_def record_ev_def is_terminated_def get_ip_def internal_ip_def
        external_ip_def Let_def split: if_splits)

declare wait_for_ip_loop.simps [simp del]

text \<open>Python truth of an optional number: \<open>None\<close> and \<open>0\<close> are false.\<close>

definition truthy :: "int option \<Rightarrow> bool" where
  "truthy x \<longleftrightarrow> (case x of None \<Rightarrow> False | Some v \<Rightarrow> v \<noteq> 0)"

text \<open>
  \<open>ProviderIpGetter.wait_for_ip(timeout, deadline)\<close>. With neither argument the loop
  compares the clock with \<open>None\<close>, which raises \<open>TypeError\<close>.
\<close>

definition wait_for_ip ::
  "env \<Rightarrow> provider_ip_getter \<Rightarrow> int option \<Rightarrow> int option \<Rightarrow> state \<Rightarrow> (error + string option) \<times> state" where
  "wait_for_ip env g timeout deadline s =
     (if truthy timeout \<and> truthy deadline then
        (Inl (ValueError ''At most one of timeout and deadline can be specified''), s)
      else
        (case (case timeout of
                 Some t \<Rightarrow> if t \<noteq> 0 then Some (clock s + t) else deadline
               | None \<Rightarrow> deadline) of
           None \<Rightarrow> (Inl (TypeError ''< not supported between float and NoneType''), s)
         | Some d \<Rightarrow> (case wait_for_ip_loop env g d s of (r, s') \<Rightarrow> (Inr r, s'))))"

text \<open>
  \<open>wait_for_ip(timeout, deadline, sleep_between_gets)\<close> with the interval as the
  parameter it is in the source. \<open>time.sleep\<close> raises \<open>ValueError\<close> for a negative
  length. With the interval 0 and calls that take no time the clock never reaches the
  deadline, so the loop need not return: the result is an option, and \<open>None\<close> stands for
  a loop that runs forever. At the interval 10 this is \<open>wait_for_ip\<close> above (lemma
  \<open>wait_for_ip_with_default\<close>).
\<close>

partial_function (option) wait_for_ip_loop_with ::
  "env \<Rightarrow> provider_ip_getter \<Rightarrow> int \<Rightarrow> int \<Rightarrow> state \<Rightarrow> ((error + string option) \<times> state) option" where
  "wait_for_ip_loop_with env g deadline sleep_between_gets s =
     (if clock s < deadline then
        (if fst (is_terminated env (g_node_id g) s)
         then Some (Inr None, snd (is_terminated env (g_node_id g) s))
         else (case get_ip env g (snd (is_terminated env (g_node_id g) s)) of
                 (Some ip, s2) \<Rightarrow> Some (Inr (Some ip), s2)
               | (None, s2) \<Rightarrow>
                   if sleep_between_gets < 0
                   then Some (Inl (ValueError ''sleep length must be non-negative''), s2)
                   else wait_for_ip_loop_with env g deadline sleep_between_gets
                          (sleep env (nat sleep_between_gets) s2)))
      else Some (Inr None, s))"

definition wait_for_ip_with ::
  "env \<Rightarrow> provider_ip_getter \<Rightarrow> int option \<Rightarrow> int option \<Rightarrow> int \<Rightarrow> state
     \<Rightarrow> ((error + string option) \<times> state) option" where
  "wait_for_ip_with env g timeout deadline sleep_between_gets s =
     (if truthy timeout \<and> truthy deadline then
        Some (Inl (ValueError ''At most one of timeout and deadline can be specified''), s)
      else
        (case (case timeout of
                 Some t \<Rightarrow> if t \<noteq> 0 then Some (clock s + t) else deadline
               | None \<Rightarrow> deadline) of
           None \<Rightarrow> Some (Inl (TypeError ''< not supported between float and NoneType''), s)
         | Some d \<Rightarrow> wait_for_ip_loop_with env g d sleep_between_gets s))"

subsection \<open>\<open>with_interactive\<close>\<close>

definition with_interactive :: "string \<Rightarrow> string list" where
  "with_interactive cmd =
     [''bash'', ''--login'', ''-c'', ''-i'',
      quote (''true && source ~/.bashrc && export OMP_NUM_THREADS=1 PYTHONWARNINGS=ignore && '' @ cmd)]"

text \<open>Python truth of an optional string: \<open>None\<close> and the empty string are false.\<close>

definition truthy_str :: "string option \<Rightarrow> bool" where
  "truthy_str c \<longleftrightarrow> (case c of None \<Rightarrow> False | Some x \<Rightarrow> x \<noteq> [])"

text \<open>
  \<open>"Command failed: \n\n  {}\n".format(quoted_cmd)\<close>, where \<open>quoted_cmd\<close> is the final
  command with its last argument quoted once more.
\<close>

definition quoted_cmd :: "string list \<Rightarrow> string" where
  "quoted_cmd final_cmd = join '' '' (butlast final_cmd @ [quote (last final_cmd)])"

definition command_failed :: "string list \<Rightarrow> string" where
  "command_failed final_cmd =
     ''Command failed: '' @ [CHR 0x0A, CHR 0x0A] @ ''  '' @ quoted_cmd final_cmd @ [CHR 0x0A]"

subsection \<open>\<open>KubernetesCommandRunner\<close>\<close>

record kubernetes_command_runner =
  k_log_prefix :: string
  k_namespace :: string
  k_node_id :: string

definition kubectl :: "kubernetes_command_runner \<Rightarrow> string list" where
  "kubectl k = [''kubectl'', ''-n'', k_namespace k]"

definition k_final_cmd :: "kubernetes_command_runner \<Rightarrow> bool \<Rightarrow> string \<Rightarrow> string list" where
  "k_final_cmd k allocate_tty cmd =
     kubectl k @ [''exec'', if allocate_tty then ''-it'' else ''-i'', k_node_id k, ''--'']
     @ with_interactive cmd"

text \<open>
  \<open>KubernetesCommandRunner.run\<close>. A port-forward specification is a list of
  (local, remote) pairs; \<open>None\<close> and the empty list are both false and are the empty list
  here, a single pair is the list of that pair. The forwarding branch runs \<open>kubectl\<close>
  with \<open>subprocess.Popen\<close> and waits for it; no pipe is attached, so \<open>communicate\<close>
  gives \<open>None\<close> for the error text and building the message raises \<open>TypeError\<close>.
  With no command at all, \<open>with_interactive(None)\<close> raises \<open>TypeError\<close>.
\<close>

definition KubernetesCommandRunner_run ::
  "env \<Rightarrow> kubernetes_command_runner \<Rightarrow> string option \<Rightarrow> int \<Rightarrow> bool \<Rightarrow> bool \<Rightarrow> (int \<times> int) list \<Rightarrow> bool
     \<Rightarrow> state \<Rightarrow> (error + string option) \<times> state" where
  "KubernetesCommandRunner_run env k cmd timeout allocate_tty exit_on_fail port_forward with_output s =
     (if truthy_str cmd \<and> port_forward \<noteq> [] then
        (Inl (PlainException
           (''exec with Kubernetes can'' @ [apostrophe] @ ''t forward ports and executecommands together.'')), s)
      else if port_forward \<noteq> [] then
        (let port_forward_cmd =
               Argv (kubectl k @ [''port-forward'', k_node_id k]
                     @ map (\<lambda>(local, remote). str_int local @ '':'' @ str_int remote) port_forward);
             out = proc_reply env (trace s) port_forward_cmd;
             s1 = record_ev env (Popen_wait port_forward_cmd out) s
         in case out of
              Missing msg \<Rightarrow> (Inl (FileNotFoundError msg), s1)
            | Exited rc output \<Rightarrow> (Inl (TypeError ''can only concatenate str (not NoneType) to str''), s1))
      else
        (case cmd of
           None \<Rightarrow> (Inl (TypeError ''can only concatenate str (not NoneType) to str''), s)
         | Some c \<Rightarrow>
             (case call_or_output env (Shell (join '' '' (k_final_cmd k allocate_tty c))) with_output s of
                (Inl e, s1) \<Rightarrow>
                  if is_CalledProcessError e \<and> exit_on_fail then
                    (Inl (SystemExit 1),
                     record_ev env
                       (Log_error (k_log_prefix k @ command_failed (k_final_cmd k allocate_tty c))) s1)
                  else (Inl e, s1)
              | (Inr output, s1) \<Rightarrow> (Inr output, s1))))"

definition KUBECTL_RSYNC :: "env \<Rightarrow> string" where
  "KUBECTL_RSYNC env = module_dir env @ ''/kubernetes/kubectl-rsync.sh''"

definition root_target :: "string \<Rightarrow> string" where
  "root_target target = (if startswith_tilde target then ''/root'' @ tl target else target)"

text \<open>
  \<open>run_rsync_up\<close> and \<open>run_rsync_down\<close>: when the rsync helper raises an \<open>Exception\<close>,
  \<open>kubectl cp\<close> is tried instead.
\<close>

definition KubernetesCommandRunner_run_rsync_up ::
  "env \<Rightarrow> kubernetes_command_runner \<Rightarrow> string \<Rightarrow> string \<Rightarrow> state \<Rightarrow> (error + unit) \<times> state" where
  "KubernetesCommandRunner_run_rsync_up env k source target s =
     (case check_call env
             (Argv [KUBECTL_RSYNC env, ''-avz'', source,
                    k_node_id k @ ''@'' @ k_namespace k @ '':'' @ root_target target]) s of
        (Inr _, s1) \<Rightarrow> (Inr (), s1)
      | (Inl e, s1) \<Rightarrow>
          if is_Exception e then
            check_call env
              (Argv (kubectl k @ [''cp'', source,
                                  k_namespace k @ ''/'' @ k_node_id k @ '':'' @ root_target target])) s1
          else (Inl e, s1))"

definition KubernetesCommandRunner_run_rsync_down ::
  "env \<Rightarrow> kubernetes_command_runner \<Rightarrow> string \<Rightarrow> string \<Rightarrow> state \<Rightarrow> (error + unit) \<times> state" where
  "KubernetesCommandRunner_run_rsync_down env k source target s =
     (case check_call env
             (Argv [KUBECTL_RSYNC env, ''-avz'',
                    k_node_id k @ ''@'' @ k_namespace k @ '':'' @ source, root_target target]) s of
        (Inr _, s1) \<Rightarrow> (Inr (), s1)
      | (Inl e, s1) \<Rightarrow>
          if is_Exception e then
            check_call env
              (Argv (kubectl k @ [''cp'', k_namespace k @ ''/'' @ k_node_id k @ '':'' @ source,
                                  root_target target])) s1
          else (Inl e, s1))"

subsection \<open>\<open>SSHCommandRunner\<close>\<close>

text \<open>
  The fields of a constructed runner. \<open>ssh_control_path\<close> is computed in the constructor
  from MD5 digests of the cluster name and the user name; here it is given. The mutable
  \<open>ssh_ip\<close> is in the state.
\<close>

record ssh_command_runner =
  s_log_prefix :: string
  s_node_id :: string
  s_use_internal_ip :: bool
  ssh_private_key :: string
  ssh_user :: string
  ssh_control_path :: string

definition get_default_ssh_options :: "ssh_command_runner \<Rightarrow> int \<Rightarrow> string list" where
  "get_default_ssh_options r connect_timeout =
     [''-i'', ssh_private_key r]
     @ concat (map (\<lambda>(k, v). [''-o'', k @ ''='' @ v])
         [(''ConnectTimeout'', str_int connect_timeout @ ''s''),
          (''StrictHostKeyChecking'', ''no''),
          (''ControlMaster'', ''auto''),
          (''ControlPath'', ssh_control_path r @ ''/%C''),
          (''ControlPersist'', ''10s''),
          (''IdentitiesOnly'', ''yes''),
          (''ExitOnForwardFailure'', ''yes''),
          (''ServerAliveInterval'', str_int 5),
          (''ServerAliveCountMax'', str_int 3)])"

definition SSHCommandRunner_wait_for_ip ::
  "env \<Rightarrow> ssh_command_runner \<Rightarrow> int \<Rightarrow> state \<Rightarrow> (error + string option) \<times> state" where
  "SSHCommandRunner_wait_for_ip env r deadline s =
     wait_for_ip env
       \<lparr>g_log_prefix = s_log_prefix r, g_node_id = s_node_id r, g_use_internal_ip = s_use_internal_ip r\<rparr>
       None (Some deadline) s"

text \<open>
  The two \<open>try\<close> blocks of \<open>set_ssh_ip_if_required\<close>: a \<open>CalledProcessError\<close> of the
  call is logged as a warning and dropped, any other exception goes on.
\<close>

definition check_call_warn :: "env \<Rightarrow> cmdline \<Rightarrow> state \<Rightarrow> (error + unit) \<times> state" where
  "check_call_warn env c s =
     (case check_call env c s of
        (Inl e, s1) \<Rightarrow> if is_CalledProcessError e then (Inr (), s1) else (Inl e, s1)
      | (Inr _, s1) \<Rightarrow> (Inr (), s1))"

definition set_ssh_ip_if_required ::
  "env \<Rightarrow> ssh_command_runner \<Rightarrow> state \<Rightarrow> (error + unit) \<times> state" where
  "set_ssh_ip_if_required env r s =
     (if ssh_ip s \<noteq> None then (Inr (), s)
      else
        (case SSHCommandRunner_wait_for_ip env r (clock s + NODE_START_WAIT_S) s of
           (Inl e, s1) \<Rightarrow> (Inl e, s1)
         | (Inr None, s1) \<Rightarrow> (Inl (AssertionError ''Unable to find IP of node''), s1)
         | (Inr (Some ip), s1) \<Rightarrow>
             (case check_call_warn env (Argv [''mkdir'', ''-p'', ssh_control_path r])
                     (s1\<lparr>ssh_ip := Some ip\<rparr>) of
                (Inl e, s2) \<Rightarrow> (Inl e, s2)
              | (Inr _, s2) \<Rightarrow> check_call_warn env (Argv [''chmod'', ''0700'', ssh_control_path r]) s2)))"

text \<open>\<open>"{}".format(self.ssh_ip)\<close>: the address, or the text \<open>None\<close>.\<close>

definition str_ip :: "string option \<Rightarrow> string" where
  "str_ip ip = (case ip of None \<Rightarrow> ''None'' | Some a \<Rightarrow> a)"

definition s_final_cmd ::
  "ssh_command_runner \<Rightarrow> string option \<Rightarrow> string option \<Rightarrow> int \<Rightarrow> bool \<Rightarrow> (int \<times> int) list \<Rightarrow> string list" where
  "s_final_cmd r ip cmd timeout allocate_tty port_forward =
     [''ssh''] @ (if allocate_tty then [''-tt''] else [])
     @ concat (map (\<lambda>(local, remote). [''-L'', str_int remote @ '':localhost:'' @ str_int local])
                port_forward)
     @ get_default_ssh_options r timeout
     @ [ssh_user r @ ''@'' @ str_ip ip]
     @ (if truthy_str cmd then with_interactive (case cmd of Some c \<Rightarrow> c | None \<Rightarrow> [])
        else [''while true; do sleep 86400; done''])"

text \<open>
  \<open>SSHCommandRunner.run\<close>. There is no check of \<open>cmd\<close> against \<open>port_forward\<close>: the
  forwards become \<open>-L\<close> options of the one \<open>ssh\<close> call. With \<open>exit_on_fail\<close> a failed
  command raises \<open>click.ClickException\<close>.
\<close>

definition SSHCommandRunner_run ::
  "env \<Rightarrow> ssh_command_runner \<Rightarrow> string option \<Rightarrow> int \<Rightarrow> bool \<Rightarrow> bool \<Rightarrow> (int \<times> int) list \<Rightarrow> bool
     \<Rightarrow> state \<Rightarrow> (error + string option) \<times> state" where
  "SSHCommandRunner_run env r cmd timeout allocate_tty exit_on_fail port_forward with_output s =
     (case set_ssh_ip_if_required env r s of
        (Inl e, s0) \<Rightarrow> (Inl e, s0)
      | (Inr _, s0) \<Rightarrow>
          (case call_or_output env
                  (Argv (s_final_cmd r (ssh_ip s0) cmd timeout allocate_tty port_forward))
                  with_output s0 of
             (Inl e, s1) \<Rightarrow>
               if is_CalledProcessError e \<and> exit_on_fail then
                 (Inl (ClickException
                    (command_failed (s_final_cmd r (ssh_ip s0) cmd timeout allocate_tty port_forward))), s1)
               else (Inl e, s1)
           | (Inr output, s1) \<Rightarrow> (Inr output, s1)))"

definition ssh_rsh :: "ssh_command_runner \<Rightarrow> string" where
  "ssh_rsh r = join '' '' ([''ssh''] @ get_default_ssh_options r 120)"

definition SSHCommandRunner_run_rsync_up ::
  "env \<Rightarrow> ssh_command_runner \<Rightarrow> string \<Rightarrow> string \<Rightarrow> state \<Rightarrow> (error + unit) \<times> state" where
  "SSHCommandRunner_run_rsync_up env r source target s =
     (case set_ssh_ip_if_required env r s of
        (Inl e, s0) \<Rightarrow> (Inl e, s0)
      | (Inr _, s0) \<Rightarrow>
          check_call env
            (Argv [''rsync'', ''--rsh'', ssh_rsh r, ''-avz'', source,
                   ssh_user r @ ''@'' @ str_ip (ssh_ip s0) @ '':'' @ target]) s0)"

definition SSHCommandRunner_run_rsync_down ::
  "env \<Rightarrow> ssh_command_runner \<Rightarrow> string \<Rightarrow> string \<Rightarrow> state \<Rightarrow> (error + unit) \<times> state" where
  "SSHCommandRunner_run_rsync_down env r source target s =
     (case set_ssh_ip_if_required env r s of
        (Inl e, s0) \<Rightarrow> (Inl e, s0)
      | (Inr _, s0) \<Rightarrow>
          check_call env
            (Argv [''rsync'', ''--rsh'', ssh_rsh r, ''-avz'',
                   ssh_user r @ ''@'' @ str_ip (ssh_ip s0) @ '':'' @ source, target]) s0)"

subsection \<open>\<open>forget_known_host\<close>\<close>

text \<open>
  \<open>subprocess.run(["ssh-keygen", "-R", host], timeout=timeout)\<close>. A host of \<open>None\<close> is
  not an argument a process can take (\<open>TypeError\<close>). A missing \<open>ssh-keygen\<close> raises
  \<open>FileNotFoundError\<close>. A process that needs more than \<open>timeout\<close> seconds is killed at
  the timeout and \<open>subprocess.TimeoutExpired\<close> is raised. The exit status is not looked at.
\<close>

definition forget_known_host ::
  "env \<Rightarrow> string option \<Rightarrow> nat \<Rightarrow> state \<Rightarrow> (error + unit) \<times> state" where
  "forget_known_host env host timeout s =
     (case host of
        None \<Rightarrow> (Inl (TypeError ''expected str, bytes or os.PathLike object, not NoneType''), s)
      | Some h \<Rightarrow>
          (let c = Argv [''ssh-keygen'', ''-R'', h];
               out = proc_reply env (trace s) c;
               ev = Subprocess_run c timeout out
           in case out of
                Missing msg \<Rightarrow> (Inl (FileNotFoundError msg), record_ev env ev s)
              | Exited rc output \<Rightarrow>
                  if timeout < elapsed env (trace s @ [ev]) then
                    (Inl (TimeoutExpired c timeout),
                     s\<lparr>trace := trace s @ [ev], clock := clock s + int timeout\<rparr>)
                  else (Inr (), record_ev env ev s)))"

subsection \<open>\<open>NodeUpdater\<close>\<close>

datatype command_runner = Kubernetes kubernetes_command_runner | SSH ssh_command_runner

text \<open>
  The fields of a constructed updater (\<open>file_mounts\<close> with the local paths already
  expanded, in the insertion order of the dictionary).
\<close>

record node_updater =
  use_internal_ip :: bool
  log_prefix :: string
  cmd_runner :: command_runner
  node_id :: string
  file_mounts :: "(string \<times> string) list"
  initialization_commands :: "string list"
  setup_commands :: "string list"
  ray_start_commands :: "string list"
  runtime_hash :: string
  remove_node_from_known_hosts_before_use :: bool

text \<open>\<open>self.cmd_runner.run(...)\<close>: the call is logged, then the runner's variant runs.\<close>

definition cmd_runner_run ::
  "env \<Rightarrow> command_runner \<Rightarrow> string option \<Rightarrow> int \<Rightarrow> bool \<Rightarrow> bool \<Rightarrow> (int \<times> int) list \<Rightarrow> bool
     \<Rightarrow> state \<Rightarrow> (error + string option) \<times> state" where
  "cmd_runner_run env runner cmd timeout allocate_tty exit_on_fail port_forward with_output s =
     (case runner of
        Kubernetes k \<Rightarrow>
          KubernetesCommandRunner_run env k cmd timeout allocate_tty exit_on_fail port_forward
            with_output (record_ev env (Call_run cmd) s)
      | SSH r \<Rightarrow>
          SSHCommandRunner_run env r cmd timeout allocate_tty exit_on_fail port_forward
            with_output (record_ev env (Call_run cmd) s))"

definition rsync_up :: "env \<Rightarrow> node_updater \<Rightarrow> string \<Rightarrow> string \<Rightarrow> state \<Rightarrow> (error + unit) \<times> state" where
  "rsync_up env u source target s =
     (case cmd_runner u of
        Kubernetes k \<Rightarrow>
          KubernetesCommandRunner_run_rsync_up env k source target
            (record_ev env (Call_rsync_up source target) s)
      | SSH r \<Rightarrow>
          SSHCommandRunner_run_rsync_up env r source target
            (record_ev env (Call_rsync_up source target) s))"

definition rsync_down :: "env \<Rightarrow> node_updater \<Rightarrow> string \<Rightarrow> string \<Rightarrow> state \<Rightarrow> (error + unit) \<times> state" where
  "rsync_down env u source target s =
     (case cmd_runner u of
        Kubernetes k \<Rightarrow>
          KubernetesCommandRunner_run_rsync_down env k source target
            (record_ev env (Call_rsync_down source target) s)
      | SSH r \<Rightarrow>
          SSHCommandRunner_run_rsync_down env r source target
            (record_ev env (Call_rsync_down source target) s))"

text \<open>
  The \<open>sync_cmd\<close> argument of \<open>sync_file_mounts\<close> is one of the updater's two bound
  methods.
\<close>

datatype sync_cmd = Rsync_up | Rsync_down

definition apply_sync ::
  "env \<Rightarrow> node_updater \<Rightarrow> sync_cmd \<Rightarrow> string \<Rightarrow> string \<Rightarrow> state \<Rightarrow> (error + unit) \<times> state" where
  "apply_sync env u sc a b s =
     (case sc of Rsync_up \<Rightarrow> rsync_up env u a b s | Rsync_down \<Rightarrow> rsync_down env u a b s)"

text \<open>
  The path pair of one mount as \<open>sync_file_mounts\<close> hands it on: for a local directory
  both paths get a trailing slash.
\<close>

definition mount_paths :: "env \<Rightarrow> string \<times> string \<Rightarrow> string \<times> string" where
  "mount_paths env m =
     (case m of (remote_path, local_path) \<Rightarrow>
        if path_isdir env local_path then
          (if endswith_slash remote_path then remote_path else remote_path @ ''/'',
           if endswith_slash local_path then local_path else local_path @ ''/'')
        else (remote_path, local_path))"

text \<open>
  The loop of \<open>sync_file_mounts\<close> over the items of \<open>self.file_mounts\<close>. The
  \<open>assert\<close> on the local path stands at the head of each iteration.
\<close>

fun sync_file_mounts_loop ::
  "env \<Rightarrow> node_updater \<Rightarrow> sync_cmd \<Rightarrow> (string \<times> string) list \<Rightarrow> state \<Rightarrow> (error + unit) \<times> state" where
  "sync_file_mounts_loop env u sc [] s = (Inr (), s)"
| "sync_file_mounts_loop env u sc (m # rest) s =
     (if \<not> path_exists env (snd m) then (Inl (AssertionError (snd m)), s)
      else
        (case cmd_runner_run env (cmd_runner u)
                (Some (''mkdir -p '' @ dirname (fst (mount_paths env m)))) 120 False False [] False s of
           (Inl e, s1) \<Rightarrow> (Inl e, s1)
         | (Inr _, s1) \<Rightarrow>
             (case apply_sync env u sc (snd (mount_paths env m)) (fst (mount_paths env m)) s1 of
                (Inl e, s2) \<Rightarrow> (Inl e, s2)
              | (Inr _, s2) \<Rightarrow> sync_file_mounts_loop env u sc rest s2)))"

definition sync_file_mounts ::
  "env \<Rightarrow> node_updater \<Rightarrow> sync_cmd \<Rightarrow> state \<Rightarrow> (error + unit) \<times> state" where
  "sync_file_mounts env u sc s = sync_file_mounts_loop env u sc (file_mounts u) s"

text \<open>
  \<open>wait_ready\<close>. In each round the clock is read first, then the provider is asked
  whether the node is terminated, then \<open>uptime\<close> is tried. An \<open>Exception\<close> of the
  attempt is formatted for the debug log (which reads \<open>e.returncode\<close> whenever \<open>e\<close> has
  a \<open>cmd\<close>), then the loop sleeps and goes on. Leaving the loop reaches \<open>assert False\<close>.
\<close>

function wait_ready ::
  "env \<Rightarrow> node_updater \<Rightarrow> int \<Rightarrow> state \<Rightarrow> (error + bool) \<times> state" where
  "wait_ready env u deadline s =
     (if clock s < deadline \<and> \<not> fst (is_terminated env (node_id u) s) then
        (case cmd_runner_run env (cmd_runner u) (Some ''uptime'') 5 False False [] False
                (snd (is_terminated env (node_id u) s)) of
           (Inr _, s2) \<Rightarrow> (Inr True, s2)
         | (Inl e, s2) \<Rightarrow>
             if is_Exception e then
               (if has_cmd e \<and> \<not> has_returncode e then
                  (Inl (AttributeError ''object has no attribute returncode''), s2)
                else wait_ready env u deadline (sleep env READY_CHECK_INTERVAL s2))
             else (Inl e, s2))
      else
        (Inl (AssertionError ''Unable to connect to node''),
         if clock s < deadline then snd (is_terminated env (node_id u) s) else s))"
  by pat_completeness auto

text \<open>
  \<open>remove_node_from_known_hosts\<close>. Of what \<open>forget_known_host\<close> raises, the handlers
  catch the built-in \<open>TimeoutError\<close>, which \<open>subprocess.run\<close> does not raise, and
  \<open>FileNotFoundError\<close>; \<open>subprocess.TimeoutExpired\<close> is neither and goes on.
\<close>

definition remove_node_from_known_hosts ::
  "env \<Rightarrow> node_updater \<Rightarrow> state \<Rightarrow> (error + unit) \<times> state" where
  "remove_node_from_known_hosts env u s =
     (case wait_for_ip env
             \<lparr>g_log_prefix = log_prefix u, g_node_id = node_id u, g_use_internal_ip = use_internal_ip u\<rparr>
             (Some NODE_START_WAIT_S) None s of
        (Inl e, s1) \<Rightarrow> (Inl e, s1)
      | (Inr node_ip, s1) \<Rightarrow>
          (case forget_known_host env node_ip 3 s1 of
             (Inl e, s2) \<Rightarrow> if is_FileNotFoundError e then (Inr (), s2) else (Inl e, s2)
           | (Inr _, s2) \<Rightarrow> (Inr (), s2)))"

text \<open>\<open>for cmd in cmds: self.cmd_runner.run(cmd)\<close>, the shape of the three command loops.\<close>

fun run_commands ::
  "env \<Rightarrow> node_updater \<Rightarrow> string list \<Rightarrow> state \<Rightarrow> (error + unit) \<times> state" where
  "run_commands env u [] s = (Inr (), s)"
| "run_commands env u (c # cs) s =
     (case cmd_runner_run env (cmd_runner u) (Some c) 120 False False [] False s of
        (Inl e, s1) \<Rightarrow> (Inl e, s1)
      | (Inr _, s1) \<Rightarrow> run_commands env u cs s1)"

definition do_update :: "env \<Rightarrow> node_updater \<Rightarrow> state \<Rightarrow> (error + unit) \<times> state" where
  "do_update env u s =
     (case (if remove_node_from_known_hosts_before_use u then remove_node_from_known_hosts env u s
            else (Inr (), s)) of
        (Inl e, s1) \<Rightarrow> (Inl e, s1)
      | (Inr _, s1) \<Rightarrow>
          (let s2 = set_node_tags env (node_id u) [(TAG_RAY_NODE_STATUS, STATUS_WAITING_FOR_SSH)] s1
           in case wait_ready env u (clock s2 + NODE_START_WAIT_S) s2 of
                (Inl e, s3) \<Rightarrow> (Inl e, s3)
              | (Inr _, s3) \<Rightarrow>
                  (case node_tags env (node_id u) s3 of
                     (tags, s4) \<Rightarrow>
                       (case (if map_of tags TAG_RAY_RUNTIME_CONFIG = Some (runtime_hash u)
                              then (Inr (), s4)
                              else
                                (case sync_file_mounts env u Rsync_up
                                        (set_node_tags env (node_id u)
                                           [(TAG_RAY_NODE_STATUS, STATUS_SYNCING_FILES)] s4) of
                                   (Inl e, s5) \<Rightarrow> (Inl e, s5)
                                 | (Inr _, s5) \<Rightarrow>
                                     (case run_commands env u (initialization_commands u)
                                             (set_node_tags env (node_id u)
                                                [(TAG_RAY_NODE_STATUS, STATUS_SETTING_UP)] s5) of
                                        (Inl e, s6) \<Rightarrow> (Inl e, s6)
                                      | (Inr _, s6) \<Rightarrow> run_commands env u (setup_commands u) s6))) of
                          (Inl e, s7) \<Rightarrow> (Inl e, s7)
                        | (Inr _, s7) \<Rightarrow> run_commands env u (ray_start_commands u) s7))))"

text \<open>
  The text that the handler of \<open>run\<close> builds for the error log: \<open>str(e)\<close>, or the exit
  status and command when \<open>e\<close> has a \<open>cmd\<close>. Reading \<open>e.returncode\<close> of a
  \<open>TimeoutExpired\<close> raises \<open>AttributeError\<close>.
\<close>

fun error_str :: "error \<Rightarrow> error + string" where
  "error_str (CalledProcessError rc c) = Inr (''(Exit Status '' @ str_int rc @ '') '' @ join_cmd c)"
| "error_str (TimeoutExpired c t) = Inl (AttributeError ''object has no attribute returncode'')"
| "error_str (FileNotFoundError msg) = Inr msg"
| "error_str (AssertionError msg) = Inr msg"
| "error_str (ValueError msg) = Inr msg"
| "error_str (TypeError msg) = Inr msg"
| "error_str (AttributeError msg) = Inr msg"
| "error_str (PlainException msg) = Inr msg"
| "error_str (ClickException msg) = Inr msg"
| "error_str (SystemExit n) = Inr (str_int n)"

text \<open>
  \<open>NodeUpdater.run\<close>: \<open>except Exception\<close> around \<open>do_update\<close>; the handler logs, sets the
  status \<open>update_failed\<close> and raises the error again. After a return of \<open>do_update\<close> the
  status and the fingerprint go into one \<open>set_node_tags\<close> call and \<open>exitcode\<close> becomes 0.
\<close>

definition run :: "env \<Rightarrow> node_updater \<Rightarrow> state \<Rightarrow> (error + unit) \<times> state" where
  "run env u s =
     (case do_update env u s of
        (Inl e, s1) \<Rightarrow>
          if is_Exception e then
            (case error_str e of
               Inl e' \<Rightarrow> (Inl e', s1)
             | Inr msg \<Rightarrow>
                 (Inl e,
                  set_node_tags env (node_id u) [(TAG_RAY_NODE_STATUS, STATUS_UPDATE_FAILED)]
                    (record_ev env (Log_error (log_prefix u @ ''Error updating '' @ msg)) s1)))
          else (Inl e, s1)
      | (Inr _, s1) \<Rightarrow>
          (Inr (),
           (set_node_tags env (node_id u)
              [(TAG_RAY_NODE_STATUS, STATUS_UP_TO_DATE), (TAG_RAY_RUNTIME_CONFIG, runtime_hash u)] s1)
           \<lparr>exitcode := Some 0\<rparr>))"

text \<open>
  \<open>NodeUpdaterThread.__init__\<close> sets \<open>exitcode\<close> to -1 after the two base constructors;
  the thread's \<open>run\<close> is \<open>NodeUpdater.run\<close>.
\<close>

definition NodeUpdaterThread_init :: "state \<Rightarrow> state" where
  "NodeUpdaterThread_init s = s\<lparr>exitcode := Some (- 1)\<rparr>"

subsection \<open>Reading the log\<close>

text \<open>The entries a call added to the log.\<close>

definition new_events :: "state \<Rightarrow> state \<Rightarrow> event list" where
  "new_events s s' = drop (length (trace s)) (trace s')"

text \<open>The calls on the command runner among some entries.\<close>

fun is_transport_call :: "event \<Rightarrow> bool" where
  "is_transport_call (Call_run c) = True"
| "is_transport_call (Call_rsync_up a b) = True"
| "is_transport_call (Call_rsync_down a b) = True"
| "is_transport_call _ = False"

definition transport_calls :: "event list \<Rightarrow> event list" where
  "transport_calls evs = filter is_transport_call evs"

fun is_tag_event :: "event \<Rightarrow> bool" where
  "is_tag_event (Set_node_tags n tags) = True"
| "is_tag_event (Node_tags n tags) = True"
| "is_tag_event _ = False"

fun is_tags_read :: "event \<Rightarrow> bool" where
  "is_tags_read (Node_tags n tags) = True"
| "is_tags_read _ = False"

text \<open>The entries after the first read of the node's tags.\<close>

definition after_tags_read :: "event list \<Rightarrow> event list" where
  "after_tags_read evs = drop 1 (dropWhile (\<lambda>e. \<not> is_tags_read e) evs)"

text \<open>
  The entries below the updater's own: calls on the provider for addresses and
  termination, child processes, sleeps and error records. A step from \<open>s\<close> to \<open>s'\<close>
  only adds entries satisfying \<open>P\<close> to the log, does not set the clock back and leaves
  \<open>exitcode\<close> as it is.
\<close>

definition is_low :: "event \<Rightarrow> bool" where
  "is_low e \<longleftrightarrow> \<not> is_transport_call e \<and> \<not> is_tag_event e"

definition steps :: "(event \<Rightarrow> bool) \<Rightarrow> state \<Rightarrow> state \<Rightarrow> bool" where
  "steps P s s' \<longleftrightarrow>
     clock s \<le> clock s' \<and> take (length (trace s)) (trace s') = trace s
     \<and> list_all P (new_events s s') \<and> exitcode s' = exitcode s"

text \<open>The runner calls that one mount, and one command list, stand for.\<close>

definition sync_call :: "sync_cmd \<Rightarrow> string \<Rightarrow> string \<Rightarrow> event" where
  "sync_call sc a b = (case sc of Rsync_up \<Rightarrow> Call_rsync_up a b | Rsync_down \<Rightarrow> Call_rsync_down a b)"

definition mount_calls :: "env \<Rightarrow> sync_cmd \<Rightarrow> string \<times> string \<Rightarrow> event list" where
  "mount_calls env sc m =
     [Call_run (Some (''mkdir -p '' @ dirname (fst (mount_paths env m)))),
      sync_call sc (snd (mount_paths env m)) (fst (mount_paths env m))]"

definition command_calls :: "string list \<Rightarrow> event list" where
  "command_calls cs = map (\<lambda>c. Call_run (Some c)) cs"

definition plan_of_mounts :: "env \<Rightarrow> sync_cmd \<Rightarrow> (string \<times> string) list \<Rightarrow> event list" where
  "plan_of_mounts env sc ms = concat (map (mount_calls env sc) ms)"

text \<open>
  The exceptions whose formatting for the log cannot fail: an \<open>Exception\<close> that has
  a \<open>returncode\<close> whenever it has a \<open>cmd\<close>.
\<close>

definition plain_error :: "error \<Rightarrow> bool" where
  "plain_error e \<longleftrightarrow> is_Exception e \<and> (has_cmd e \<longrightarrow> has_returncode e)"

definition any_event :: "event \<Rightarrow> bool" where
  "any_event e \<longleftrightarrow> True"

text \<open>Entries other than a read of the node's tags.\<close>

definition quiet :: "event \<Rightarrow> bool" where
  "quiet e \<longleftrightarrow> \<not> is_tags_read e"

text \<open>
  The runner calls of a whole update after the tags have been read: the start commands
  alone when the stored fingerprint is the desired one, otherwise mounts, initialization,
  setup and start commands in this order.
\<close>

definition full_plan :: "env \<Rightarrow> node_updater \<Rightarrow> event list" where
  "full_plan env u =
     plan_of_mounts env Rsync_up (file_mounts u) @ command_calls (initialization_commands u)
     @ command_calls (setup_commands u) @ command_calls (ray_start_commands u)"

definition plan_after_read :: "env \<Rightarrow> node_updater \<Rightarrow> (string \<times> string) list \<Rightarrow> event list" where
  "plan_after_read env u tags =
     (if map_of tags TAG_RAY_RUNTIME_CONFIG = Some (runtime_hash u)
      then command_calls (ray_start_commands u) else full_plan env u)"

text \<open>
  A (partial) run from \<open>s\<close> with result \<open>res\<close> follows a plan of runner calls: it
  reads no tags, its runner calls are an initial part of the plan, and all of the plan
  unless it raised.
\<close>

definition follows_plan :: "state \<Rightarrow> (error + unit) \<times> state \<Rightarrow> event list \<Rightarrow> bool" where
  "follows_plan s res plan \<longleftrightarrow>
     steps quiet s (snd res)
     \<and> prefix (transport_calls (new_events s (snd res))) plan
     \<and> (isl (fst res) \<or> transport_calls (new_events s (snd res)) = plan)"

fun is_TimeoutExpired :: "error \<Rightarrow> bool" where
  "is_TimeoutExpired (TimeoutExpired c t) = True"
| "is_TimeoutExpired _ = False"

text \<open>The rounds of a polling loop: each asks the provider once whether the node is terminated.\<close>

fun is_poll :: "event \<Rightarrow> bool" where
  "is_poll (Is_terminated n r) = True"
| "is_poll _ = False"

text \<open>
  The readiness probe, and the entries that \<open>do_update\<close> may log before it reads the
  node's tags: of the calls on the command runner only the probe, and no read of the
  tags. The entries before the first read of the tags.
\<close>

fun is_probe :: "event \<Rightarrow> bool" where
  "is_probe (Call_run c) = (c = Some ''uptime'')"
| "is_probe _ = False"

definition before_read :: "event \<Rightarrow> bool" where
  "before_read e \<longleftrightarrow> (if is_transport_call e then is_probe e else \<not> is_tags_read e)"

definition before_tags_read :: "event list \<Rightarrow> event list" where
  "before_tags_read evs = takeWhile (\<lambda>e. \<not> is_tags_read e) evs"

text \<open>
  The exception \<open>e\<close> and the state \<open>s'\<close> are what one step of the update leaves when it
  is started in \<open>s1\<close> and raises: a command given to the runner, the sync of a mount, or
  the \<open>assert\<close> on a local path that does not exist (which raises before anything is
  logged).
\<close>

abbreviation raised_at :: "env \<Rightarrow> node_updater \<Rightarrow> error \<Rightarrow> state \<Rightarrow> state \<Rightarrow> bool" where
  "raised_at env u e s1 s' \<equiv>
     (\<exists>c. cmd_runner_run env (cmd_runner u) (Some c) 120 False False [] False s1 = (Inl e, s'))
     \<or> (\<exists>a b. rsync_up env u a b s1 = (Inl e, s'))
     \<or> (s' = s1 \<and> (\<exists>m \<in> set (file_mounts u). \<not> path_exists env (snd m) \<and> e = AssertionError (snd m)))"

subsection \<open>Concrete collaborators for the examples\<close>

text \<open>
  An environment in which every call returns at once, the node is alive and has an
  address, every process exits with status 0 and every local path is a plain file; a
  state with an empty log; an address getter for the node.
\<close>

definition quiet_env :: env where
  "quiet_env =
     \<lparr>elapsed = (\<lambda>h. 0), tags_reply = (\<lambda>h n. []), terminated_reply = (\<lambda>h n. False),
      ip_reply = (\<lambda>h internal n. Some ''10.0.0.7''), proc_reply = (\<lambda>h c. Exited 0 []),
      path_exists = (\<lambda>p. True), path_isdir = (\<lambda>p. False), module_dir = ''/opt/ray''\<rparr>"

definition fresh :: state where
  "fresh = \<lparr>clock = 0, trace = [], ssh_ip = None, exitcode = None\<rparr>"

definition getter1 :: provider_ip_getter where
  "getter1 =
     \<lparr>g_log_prefix = ''NodeUpdater: node-1: '', g_node_id = ''node-1'', g_use_internal_ip = False\<rparr>"

text \<open>
  The same environment with every process exiting with status 1; a Kubernetes runner and
  an SSH runner for the node; a state of the SSH runner with the address resolved.
\<close>

definition failing_env :: env where
  "failing_env = quiet_env\<lparr>proc_reply := (\<lambda>h c. Exited 1 [])\<rparr>"

definition kube1 :: kubernetes_command_runner where
  "kube1 = \<lparr>k_log_prefix = ''NodeUpdater: node-1: '', k_namespace = ''ray'', k_node_id = ''node-1''\<rparr>"

definition ssh1 :: ssh_command_runner where
  "ssh1 =
     \<lparr>s_log_prefix = ''NodeUpdater: node-1: '', s_node_id = ''node-1'', s_use_internal_ip = False,
      ssh_private_key = ''key.pem'', ssh_user = ''ubuntu'', ssh_control_path = ''/tmp/ray_ssh_0/1''\<rparr>"

definition resolved :: state where
  "resolved = fresh\<lparr>ssh_ip := Some ''10.0.0.7''\<rparr>"

text \<open>
  Environments in which \<open>./b\<close> is a directory, and in which \<open>./missing\<close> does not
  exist; an updater over the Kubernetes runner with two file mounts, and the same updater
  with a second mount whose local path is missing.
\<close>

definition dir_env :: env where
  "dir_env = quiet_env\<lparr>path_isdir := (\<lambda>p. p = ''./b'')\<rparr>"

definition missing_env :: env where
  "missing_env = quiet_env\<lparr>path_exists := (\<lambda>p. p \<noteq> ''./missing'')\<rparr>"

definition updater1 :: node_updater where
  "updater1 =
     \<lparr>use_internal_ip = False, log_prefix = ''NodeUpdater: node-1: '', cmd_runner = Kubernetes kube1,
      node_id = ''node-1'', file_mounts = [(''/app/a'', ''./a''), (''/app/b'', ''./b'')],
      initialization_commands = [''echo init''], setup_commands = [''echo setup''],
      ray_start_commands = [''ray stop'', ''ray start''], runtime_hash = ''abc123'',
      remove_node_from_known_hosts_before_use = False\<rparr>"

definition updater2 :: node_updater where
  "updater2 = updater1\<lparr>file_mounts := [(''/app/a'', ''./a''), (''/app/b'', ''./missing'')]\<rparr>"

text \<open>
  Environments in which the stored fingerprint is the desired one of \<open>updater1\<close>; in
  which, in addition, every process started after the tags were read exits with status 1;
  and in which \<open>ssh-keygen\<close> takes four seconds. An updater with the known-hosts
  cleanup switched on (the default of the constructor).
\<close>

definition match_env :: env where
  "match_env = quiet_env\<lparr>tags_reply := (\<lambda>h n. [(TAG_RAY_RUNTIME_CONFIG, ''abc123'')])\<rparr>"

definition match_fail_env :: env where
  "match_fail_env =
     match_env\<lparr>proc_reply := (\<lambda>h c. if list_ex is_tags_read h then Exited 1 [] else Exited 0 [])\<rparr>"

definition slow_keygen_env :: env where
  "slow_keygen_env =
     quiet_env\<lparr>elapsed := (\<lambda>h. case last h of Subprocess_run c t out \<Rightarrow> 4 | _ \<Rightarrow> 0)\<rparr>"

definition updater3 :: node_updater where
  "updater3 = updater1\<lparr>remove_node_from_known_hosts_before_use := True\<rparr>"

section \<open>Every call only extends the log\<close>

text \<open>
  Each method leaves the entries already in the log alone and never sets the clock back.
  The methods of the runners and of the address getter add only entries below the
  updater's own.
\<close>


lemma steps_refl: "steps P s s"
  by (simp add: steps_def new_events_def)

lemma steps_traceD: "steps P s s' \<Longrightarrow> trace s' = trace s @ new_events s s'"
  unfolding steps_def new_events_def by (metis append_take_drop_id)

lemma steps_clockD: "steps P s s' \<Longrightarrow> clock s \<le> clock s'"
  by (simp add: steps_def)

lemma steps_exitcodeD: "steps P s s' \<Longrightarrow> exitcode s' = exitcode s"
  by (simp add: steps_def)

lemma steps_allD: "steps P s s' \<Longrightarrow> list_all P (new_events s s')"
  by (simp add: steps_def)

lemma stepsI:
  "trace s' = trace s @ evs \<Longrightarrow> list_all P evs \<Longrightarrow> clock s \<le> clock s' \<Longrightarrow> exitcode s' = exitcode s
     \<Longrightarrow> steps P s s'"
  by (simp add: steps_def new_events_def)

lemma new_events_append:
  assumes "steps P s s1" and "steps Q s1 s2"
  shows "new_events s s2 = new_events s s1 @ new_events s1 s2"
proof -
  have e: "trace s2 = trace s @ (new_events s s1 @ new_events s1 s2)"
    using steps_traceD [OF assms(1)] steps_traceD [OF assms(2)] by simp
  have "drop (length (trace s)) (trace s @ (new_events s s1 @ new_events s1 s2))
        = new_events s s1 @ new_events s1 s2" by simp
  then show ?thesis unfolding new_events_def [of s s2] using e by metis
qed

lemma steps_trans:
  assumes "steps P s s1" and "steps P s1 s2"
  shows "steps P s s2"
proof (rule stepsI)
  show "trace s2 = trace s @ (new_events s s1 @ new_events s1 s2)"
    using steps_traceD [OF assms(1)] steps_traceD [OF assms(2)] by simp
  show "list_all P (new_events s s1 @ new_events s1 s2)"
    using steps_allD [OF assms(1)] steps_allD [OF assms(2)] by simp
  show "clock s \<le> clock s2"
    using steps_clockD [OF assms(1)] steps_clockD [OF assms(2)] by simp
  show "exitcode s2 = exitcode s"
    using steps_exitcodeD [OF assms(1)] steps_exitcodeD [OF assms(2)] by simp
qed

lemma steps_mono: "steps P s s' \<Longrightarrow> (\<And>e. P e \<Longrightarrow> Q e) \<Longrightarrow> steps Q s s'"
  unfolding steps_def by (auto simp: list_all_iff)

lemma steps_record_ev: "P ev \<Longrightarrow> steps P s (record_ev env ev s)"
  by (simp add: steps_def new_events_def record_ev_def)

lemma new_events_record_ev [simp]: "new_events s (record_ev env ev s) = [ev]"
  by (simp add: new_events_def record_ev_def)

lemma steps_ssh_ip_update [simp]: "steps P s (s'\<lparr>ssh_ip := x\<rparr>) = steps P s s'"
  by (simp add: steps_def new_events_def)

lemma steps_ssh_ip_update_left [simp]: "steps P (s\<lparr>ssh_ip := x\<rparr>) s' = steps P s s'"
  by (simp add: steps_def new_events_def)

lemma steps_sleep: "P (Sleep (int d)) \<Longrightarrow> steps P s (sleep env d s)"
  by (simp add: steps_def new_events_def record_ev_def sleep_def)

lemma clock_sleep: "clock s + int d \<le> clock (sleep env d s)"
  by (simp add: record_ev_def sleep_def)

lemma steps_is_terminated: "steps is_low s (snd (is_terminated env n s))"
  by (simp add: is_terminated_def Let_def steps_record_ev is_low_def)

lemma steps_get_ip: "steps is_low s (snd (get_ip env g s))"
  by (simp add: get_ip_def internal_ip_def external_ip_def Let_def steps_record_ev is_low_def)

lemma steps_check_call: "steps is_low s (snd (check_call env c s))"
  by (simp add: check_call_def Let_def steps_record_ev is_low_def split: proc_outcome.splits)

lemma steps_check_output: "steps is_low s (snd (check_output env c s))"
  by (simp add: check_output_def Let_def steps_record_ev is_low_def split: proc_outcome.splits)

lemma steps_wait_for_ip_loop: "steps is_low s (snd (wait_for_ip_loop env g deadline s))"
proof (induction env g deadline s rule: wait_for_ip_loop.induct)
  case (1 env g deadline s)
  let ?s1 = "snd (is_terminated env (g_node_id g) s)"
  have a: "steps is_low s ?s1" by (rule steps_is_terminated)
  show ?case
  proof (cases "clock s < deadline \<and> \<not> fst (is_terminated env (g_node_id g) s)")
    case False
    then show ?thesis
      using a by (subst wait_for_ip_loop.simps) (auto simp: steps_refl)
  next
    case True
    obtain r s2 where g: "get_ip env g ?s1 = (r, s2)" by (cases "get_ip env g ?s1")
    have b: "steps is_low ?s1 s2" using steps_get_ip [of ?s1 env g] g by simp
    show ?thesis
    proof (cases r)
      case (Some ip)
      then show ?thesis
        using True g steps_trans [OF a b] by (subst wait_for_ip_loop.simps) simp
    next
      case None
      have c: "steps is_low s2 (sleep env 10 s2)" by (rule steps_sleep) (simp add: is_low_def)
      have d: "steps is_low (sleep env 10 s2) (snd (wait_for_ip_loop env g deadline (sleep env 10 s2)))"
        using "1.IH" True g None by simp
      show ?thesis
        using True g None steps_trans [OF steps_trans [OF steps_trans [OF a b] c] d]
        by (subst wait_for_ip_loop.simps) simp
    qed
  qed
qed


lemma is_terminated_steps: "is_terminated env n s = (r, s') \<Longrightarrow> steps is_low s s'"
  using steps_is_terminated [of s env n] by simp

lemma get_ip_steps: "get_ip env g s = (r, s') \<Longrightarrow> steps is_low s s'"
  using steps_get_ip [of s env g] by simp

lemma check_call_steps: "check_call env c s = (r, s') \<Longrightarrow> steps is_low s s'"
  using steps_check_call [of s env c] by simp

lemma check_output_steps: "check_output env c s = (r, s') \<Longrightarrow> steps is_low s s'"
  using steps_check_output [of s env c] by simp

lemma wait_for_ip_loop_steps: "wait_for_ip_loop env g d s = (r, s') \<Longrightarrow> steps is_low s s'"
  using steps_wait_for_ip_loop [of s env g d] by simp

lemma wait_for_ip_steps: "wait_for_ip env g timeout deadline s = (r, s') \<Longrightarrow> steps is_low s s'"
  by (auto simp: wait_for_ip_def steps_refl split: if_splits option.splits prod.splits
      dest: wait_for_ip_loop_steps)

lemma check_call_warn_steps: "check_call_warn env c s = (r, s') \<Longrightarrow> steps is_low s s'"
  by (auto simp: check_call_warn_def split: prod.splits sum.splits if_splits
      dest: check_call_steps)

lemma set_ssh_ip_if_required_steps:
  "set_ssh_ip_if_required env r s = (x, s') \<Longrightarrow> steps is_low s s'"
  unfolding set_ssh_ip_if_required_def SSHCommandRunner_wait_for_ip_def
  by (auto simp: steps_refl split: if_splits prod.splits sum.splits option.splits
      dest!: wait_for_ip_steps check_call_warn_steps; blast intro: steps_trans)


lemma is_low_simps [simp]:
  "is_low (Is_terminated n tb)" "is_low (Internal_ip n i)" "is_low (External_ip n i)"
  "is_low (Check_call c out)" "is_low (Check_output c out)" "is_low (Popen_wait c out)"
  "is_low (Subprocess_run c t out)" "is_low (Sleep d)" "is_low (Log_error m)"
  "\<not> is_low (Call_run cmd)" "\<not> is_low (Call_rsync_up a b)" "\<not> is_low (Call_rsync_down a b)"
  "\<not> is_low (Set_node_tags n tags)" "\<not> is_low (Node_tags n tags)"
  by (simp_all add: is_low_def)

lemma steps_then_record: "steps P s s1 \<Longrightarrow> P ev \<Longrightarrow> steps P s (record_ev env ev s1)"
  by (rule steps_trans [OF _ steps_record_ev])

lemma call_or_output_steps: "call_or_output env c wo s = (r, s') \<Longrightarrow> steps is_low s s'"
  by (auto simp: call_or_output_def split: if_splits prod.splits sum.splits
      dest: check_call_steps check_output_steps)

lemma KubernetesCommandRunner_run_steps:
  "KubernetesCommandRunner_run env k cmd t tty eof pf wo s = (x, s') \<Longrightarrow> steps is_low s s'"
  unfolding KubernetesCommandRunner_run_def Let_def
  by (auto simp: steps_refl steps_record_ev steps_then_record
      split: if_splits prod.splits sum.splits option.splits proc_outcome.splits
      dest!: call_or_output_steps)

lemma SSHCommandRunner_run_steps:
  "SSHCommandRunner_run env r cmd t tty eof pf wo s = (x, s') \<Longrightarrow> steps is_low s s'"
  unfolding SSHCommandRunner_run_def
  by (auto split: if_splits prod.splits sum.splits
      dest!: call_or_output_steps set_ssh_ip_if_required_steps; blast intro: steps_trans)

lemma KubernetesCommandRunner_run_rsync_up_steps:
  "KubernetesCommandRunner_run_rsync_up env k a b s = (x, s') \<Longrightarrow> steps is_low s s'"
  unfolding KubernetesCommandRunner_run_rsync_up_def
  by (auto split: if_splits prod.splits sum.splits
      dest!: check_call_steps; blast intro: steps_trans)

lemma KubernetesCommandRunner_run_rsync_down_steps:
  "KubernetesCommandRunner_run_rsync_down env k a b s = (x, s') \<Longrightarrow> steps is_low s s'"
  unfolding KubernetesCommandRunner_run_rsync_down_def
  by (auto split: if_splits prod.splits sum.splits
      dest!: check_call_steps; blast intro: steps_trans)

lemma SSHCommandRunner_run_rsync_up_steps:
  "SSHCommandRunner_run_rsync_up env r a b s = (x, s') \<Longrightarrow> steps is_low s s'"
  unfolding SSHCommandRunner_run_rsync_up_def
  by (auto split: if_splits prod.splits sum.splits
      dest!: check_call_steps set_ssh_ip_if_required_steps; blast intro: steps_trans)

lemma SSHCommandRunner_run_rsync_down_steps:
  "SSHCommandRunner_run_rsync_down env r a b s = (x, s') \<Longrightarrow> steps is_low s s'"
  unfolding SSHCommandRunner_run_rsync_down_def
  by (auto split: if_splits prod.splits sum.splits
      dest!: check_call_steps set_ssh_ip_if_required_steps; blast intro: steps_trans)

lemma forget_known_host_steps:
  "forget_known_host env host t s = (x, s') \<Longrightarrow> steps is_low s s'"
  unfolding forget_known_host_def Let_def
  by (auto simp: steps_refl steps_record_ev steps_def new_events_def record_ev_def
      split: if_splits option.splits proc_outcome.splits)

lemma remove_node_from_known_hosts_steps:
  "remove_node_from_known_hosts env u s = (x, s') \<Longrightarrow> steps is_low s s'"
  unfolding remove_node_from_known_hosts_def
  by (auto split: if_splits prod.splits sum.splits
      dest!: wait_for_ip_steps forget_known_host_steps; blast intro: steps_trans)

text \<open>A call on the command runner adds its own entry and then entries below it.\<close>

lemma cmd_runner_run_steps:
  "cmd_runner_run env cr cmd t tty eof pf wo s = (x, s') \<Longrightarrow>
     steps is_low (record_ev env (Call_run cmd) s) s'"
  unfolding cmd_runner_run_def
  by (auto split: command_runner.splits
      dest: KubernetesCommandRunner_run_steps SSHCommandRunner_run_steps)

lemma apply_sync_steps:
  "apply_sync env u sc a b s = (x, s') \<Longrightarrow> steps is_low (record_ev env (sync_call sc a b) s) s'"
  unfolding apply_sync_def rsync_up_def rsync_down_def sync_call_def
  by (auto split: command_runner.splits sync_cmd.splits
      dest: KubernetesCommandRunner_run_rsync_up_steps SSHCommandRunner_run_rsync_up_steps
        KubernetesCommandRunner_run_rsync_down_steps SSHCommandRunner_run_rsync_down_steps)

lemma cmd_runner_run_clock:
  "cmd_runner_run env cr cmd t tty eof pf wo s = (x, s') \<Longrightarrow> clock s \<le> clock s'"
  using steps_clockD [OF cmd_runner_run_steps, of env cr cmd t tty eof pf wo s x s']
  by (simp add: record_ev_def)


lemma wait_ready_progress:
  assumes "(r, y) = cmd_runner_run env cr c t tty eof pf wo (snd (is_terminated env n s))"
  shows "clock s < clock (sleep env READY_CHECK_INTERVAL y)"
proof -
  have "clock s \<le> clock (snd (is_terminated env n s))"
    by (rule steps_clockD [OF steps_is_terminated])
  moreover have "clock (snd (is_terminated env n s)) \<le> clock y"
    by (rule cmd_runner_run_clock [OF assms [symmetric]])
  moreover have "clock y + int READY_CHECK_INTERVAL \<le> clock (sleep env READY_CHECK_INTERVAL y)"
    by (rule clock_sleep)
  ultimately show ?thesis by (simp add: READY_CHECK_INTERVAL_def)
qed

termination wait_ready
  by (relation "measure (\<lambda>(env, u, deadline, s). nat (deadline - clock s))")
     (auto dest: wait_ready_progress)

declare wait_ready.simps [simp del]

section \<open>The address getter\<close>

text \<open>At the default interval the general method is the total one.\<close>

lemma wait_for_ip_loop_with_default:
  "wait_for_ip_loop_with env g d 10 s =
     Some (Inr (fst (wait_for_ip_loop env g d s)), snd (wait_for_ip_loop env g d s))"
proof (induction env g d s rule: wait_for_ip_loop.induct)
  case (1 env g d s)
  show ?case
    apply (subst wait_for_ip_loop_with.simps)
    apply (subst (1 2) wait_for_ip_loop.simps)
    using "1.IH" by (auto split: prod.splits option.splits)
qed

lemma wait_for_ip_with_default:
  "wait_for_ip_with env g timeout deadline 10 s = Some (wait_for_ip env g timeout deadline s)"
  by (auto simp: wait_for_ip_with_def wait_for_ip_def wait_for_ip_loop_with_default
      split: option.splits prod.splits)

text \<open>The loop adds only provider calls and sleeps to the log.\<close>

lemma wait_for_ip_loop_with_steps:
  assumes "wait_for_ip_loop_with env g d i s = Some res"
  shows "steps is_low s (snd res)"
proof (rule wait_for_ip_loop_with.raw_induct
    [where P = "\<lambda>env g d i s res. steps is_low s (snd res)", OF _ assms], goal_cases)
  case (1 loop env g d i s res)
  let ?s1 = "snd (is_terminated env (g_node_id g) s)"
  have a: "steps is_low s ?s1" by (rule steps_is_terminated)
  obtain r s2 where gi: "get_ip env g ?s1 = (r, s2)" by (cases "get_ip env g ?s1")
  have b: "steps is_low ?s1 s2" by (rule get_ip_steps [OF gi])
  have c: "steps is_low s2 (sleep env (nat i) s2)" by (rule steps_sleep) simp
  note ab = steps_trans [OF a b]
  note abc = steps_trans [OF ab c]
  show ?case
  proof (cases "clock s < d \<and> \<not> fst (is_terminated env (g_node_id g) s) \<and> r = None \<and> \<not> i < 0")
    case True
    then have "loop env g d i (sleep env (nat i) s2) = Some res"
      using "1"(2) gi by simp
    then show ?thesis using "1"(1) steps_trans [OF abc] by blast
  next
    case False
    then show ?thesis
      using "1"(2) gi a ab by (auto simp: steps_refl split: if_splits option.splits)
  qed
qed

text \<open>
  With a positive interval the loop returns, and returns a value: the rounds are at least
  the interval apart and each starts before the deadline, which bounds their number.
\<close>

lemma wait_for_ip_loop_with_returns:
  assumes "0 < i"
  shows "\<exists>r s'. wait_for_ip_loop_with env g d i s = Some (Inr r, s')
           \<and> int (length (filter is_poll (new_events s s'))) * i \<le> max 0 (d - clock s + i - 1)"
proof (induction "nat (d - clock s)" arbitrary: s rule: less_induct)
  case less
  let ?t = "is_terminated env (g_node_id g) s"
  let ?s1 = "snd ?t"
  have s1: "?s1 = record_ev env (Is_terminated (g_node_id g) (fst ?t)) s"
    by (simp add: is_terminated_def Let_def)
  have e1: "new_events s ?s1 = [Is_terminated (g_node_id g) (fst ?t)]"
    using s1 by (metis new_events_record_ev)
  show ?case
  proof (cases "clock s < d")
    case False
    then show ?thesis by (subst wait_for_ip_loop_with.simps) (simp add: new_events_def)
  next
    case lt: True
    show ?thesis
    proof (cases "fst ?t")
      case True
      then show ?thesis
        using lt e1 assms by (subst wait_for_ip_loop_with.simps) (simp add: max_def)
    next
      case nt: False
      obtain r s2 where gi: "get_ip env g ?s1 = (r, s2)" by (cases "get_ip env g ?s1")
      have a: "steps is_low s ?s1" by (rule steps_is_terminated)
      have b: "steps is_low ?s1 s2" by (rule get_ip_steps [OF gi])
      have n2: "new_events s s2 = new_events s ?s1 @ new_events ?s1 s2"
        by (rule new_events_append [OF a b])
      have e2: "filter is_poll (new_events ?s1 s2) = []"
        using gi by (auto simp: get_ip_def internal_ip_def external_ip_def Let_def split: if_splits)
      show ?thesis
      proof (cases r)
        case (Some ip)
        then show ?thesis
          using lt nt gi n2 e1 e2 assms by (subst wait_for_ip_loop_with.simps) (simp add: max_def)
      next
        case None
        let ?s3 = "sleep env (nat i) s2"
        have c: "steps is_low s2 ?s3" by (rule steps_sleep) simp
        have s2: "steps is_low s s2" by (rule steps_trans [OF a b])
        have s3: "steps is_low s ?s3" by (rule steps_trans [OF s2 c])
        have ck: "clock s + i \<le> clock ?s3"
          using steps_clockD [OF s2] clock_sleep [of s2 "nat i" env] assms by simp
        have "nat (d - clock ?s3) < nat (d - clock s)" using ck lt assms by simp
        from less [OF this] obtain r' s' where
          rec: "wait_for_ip_loop_with env g d i ?s3 = Some (Inr r', s')"
          and bd: "int (length (filter is_poll (new_events ?s3 s'))) * i \<le> max 0 (d - clock ?s3 + i - 1)"
          by blast
        have d: "steps is_low ?s3 s'" using wait_for_ip_loop_with_steps [OF rec] by simp
        have n4: "new_events s s' = new_events s s2 @ new_events s2 ?s3 @ new_events ?s3 s'"
          using new_events_append [OF s3 d] new_events_append [OF s2 c] by simp
        have e3: "new_events s2 ?s3 = [Sleep (int (nat i))]"
          by (simp add: new_events_def sleep_def record_ev_def)
        have eq: "wait_for_ip_loop_with env g d i s = Some (Inr r', s')"
          using lt nt gi None assms rec by (subst wait_for_ip_loop_with.simps) simp
        have cnt: "int (length (filter is_poll (new_events s s')))
                   = 1 + int (length (filter is_poll (new_events ?s3 s')))"
          using n4 n2 e1 e2 e3 by simp
        have "(1 + int (length (filter is_poll (new_events ?s3 s')))) * i \<le> max 0 (d - clock s + i - 1)"
        proof -
          have "int (length (filter is_poll (new_events ?s3 s'))) * i \<le> max 0 (d - clock s - 1)"
            using bd ck by (auto simp: max_def split: if_splits)
          moreover have "i \<le> d - clock s + i - 1" using lt by simp
          ultimately show ?thesis by (auto simp: max_def algebra_simps split: if_splits)
        qed
        then show ?thesis using eq cnt by simp
      qed
    qed
  qed
qed


text \<open>
  The only exception out of the loop is the one of \<open>time.sleep\<close> for a negative
  interval. So the \<open>ValueError\<close> of the guard is raised exactly when \<open>timeout\<close> and
  \<open>deadline\<close> are both true in Python's sense (neither \<open>None\<close> nor zero), and then
  at once, in the state of the call.
\<close>

lemma wait_for_ip_loop_with_error:
  assumes "wait_for_ip_loop_with env g d i s = Some res"
  shows "\<forall>e. fst res = Inl e \<longrightarrow> e = ValueError ''sleep length must be non-negative'' \<and> i < 0"
proof (rule wait_for_ip_loop_with.raw_induct
    [where P = "\<lambda>env g d i s res.
        \<forall>e. fst res = Inl e \<longrightarrow> e = ValueError ''sleep length must be non-negative'' \<and> i < 0",
      OF _ assms], goal_cases)
  case (1 loop env g d i s res)
  obtain r s2 where gi: "get_ip env g (snd (is_terminated env (g_node_id g) s)) = (r, s2)"
    by (cases "get_ip env g (snd (is_terminated env (g_node_id g) s))")
  show ?case
  proof (cases "clock s < d \<and> \<not> fst (is_terminated env (g_node_id g) s) \<and> r = None \<and> \<not> i < 0")
    case True
    then have "loop env g d i (sleep env (nat i) s2) = Some res"
      using "1"(2) gi by simp
    then show ?thesis using "1"(1) by blast
  next
    case False
    then show ?thesis
      using "1"(2) gi by (auto split: if_splits option.splits)
  qed
qed

lemma wait_for_ip_with_refused:
  "truthy timeout \<Longrightarrow> truthy deadline \<Longrightarrow>
     wait_for_ip_with env g timeout deadline i s =
       Some (Inl (ValueError ''At most one of timeout and deadline can be specified''), s)"
  by (simp add: wait_for_ip_with_def)

lemma wait_for_ip_with_refused_iff:
  "(\<exists>s'. wait_for_ip_with env g timeout deadline i s =
            Some (Inl (ValueError ''At most one of timeout and deadline can be specified''), s'))
   \<longleftrightarrow> truthy timeout \<and> truthy deadline"
proof
  assume "truthy timeout \<and> truthy deadline"
  then show "\<exists>s'. wait_for_ip_with env g timeout deadline i s =
            Some (Inl (ValueError ''At most one of timeout and deadline can be specified''), s')"
    by (auto simp: wait_for_ip_with_refused)
next
  assume "\<exists>s'. wait_for_ip_with env g timeout deadline i s =
            Some (Inl (ValueError ''At most one of timeout and deadline can be specified''), s')"
  then obtain s' where
    r: "wait_for_ip_with env g timeout deadline i s =
          Some (Inl (ValueError ''At most one of timeout and deadline can be specified''), s')"
    by blast
  show "truthy timeout \<and> truthy deadline"
  proof (rule ccontr)
    assume n: "\<not> (truthy timeout \<and> truthy deadline)"
    then show False
      using r wait_for_ip_loop_with_error [of env g _ i s
          "(Inl (ValueError ''At most one of timeout and deadline can be specified''), s')"]
      by (auto simp: wait_for_ip_with_def split: option.splits if_splits)
  qed
qed

text \<open>
  C5. A call of \<open>wait_for_ip\<close> that supplies both a timeout and a deadline should fail
  at once with the \<open>ValueError\<close> \<open>At most one of timeout and deadline can be specified\<close>
  and ask the provider nothing. The guard is the truth test \<open>if timeout and deadline\<close>,
  so it lets a supplied 0 pass: at clock 0 the call with the timeout 0 and the deadline 5,
  and the call with the timeout 5 and the deadline 0, are not refused. Each asks the
  provider whether the node is terminated, asks for the address, and returns it.
\<close>

theorem wait_for_ip_zero_not_refused:
  "wait_for_ip_with quiet_env getter1 (Some 0) (Some 5) 10 fresh =
     Some (Inr (Some ''10.0.0.7''),
           fresh\<lparr>trace := [Is_terminated ''node-1'' False, External_ip ''node-1'' (Some ''10.0.0.7'')]\<rparr>)
   \<and> wait_for_ip_with quiet_env getter1 (Some 5) (Some 0) 10 fresh =
     Some (Inr (Some ''10.0.0.7''),
           fresh\<lparr>trace := [Is_terminated ''node-1'' False, External_ip ''node-1'' (Some ''10.0.0.7'')]\<rparr>)"
  by (simp add: wait_for_ip_with_def wait_for_ip_loop_with.simps quiet_env_def getter1_def fresh_def
      is_terminated_def get_ip_def external_ip_def record_ev_def Let_def truthy_def)



section \<open>The two command runners\<close>

lemma str_int_8265: "str_int 8265 = ''8265''"
  by (simp add: str_int_def str_nat.simps digit_char_def)

text \<open>
  C6, as amended. \<open>KubernetesCommandRunner.run\<close> called with a command (a non-empty
  string) and a port-forward specification (a non-empty list) raises \<open>Exception\<close>
  before anything is run: the state is unchanged. \<open>SSHCommandRunner.run\<close> makes no such
  check (next theorem).
\<close>

theorem KubernetesCommandRunner_run_refuses_both:
  "truthy_str cmd \<Longrightarrow> port_forward \<noteq> [] \<Longrightarrow>
     \<exists>msg. KubernetesCommandRunner_run env k cmd timeout allocate_tty exit_on_fail port_forward
             with_output s = (Inl (PlainException msg), s)"
  by (simp add: KubernetesCommandRunner_run_def)

theorem KubernetesCommandRunner_run_refuses_both_witness:
  "truthy_str (Some ''uptime'') \<and> [(8265, 8265)] \<noteq> ([] :: (int \<times> int) list) \<and>
   (\<exists>msg. KubernetesCommandRunner_run quiet_env kube1 (Some ''uptime'') 120 False False [(8265, 8265)]
            False fresh = (Inl (PlainException msg), fresh))"
  using KubernetesCommandRunner_run_refuses_both
    [of "Some ''uptime''" "[(8265, 8265)]" quiet_env kube1 120 False False False fresh]
  by (simp add: truthy_str_def)

text \<open>
  C6 as stated fails for the SSH runner: called with the command \<open>uptime\<close> and the
  forward (8265, 8265), it returns normally after one \<open>ssh\<close> process that carries the
  forward as an \<open>-L\<close> option and the command.
\<close>

theorem SSHCommandRunner_run_both_counterexample:
  "SSHCommandRunner_run quiet_env ssh1 (Some ''uptime'') 120 False False [(8265, 8265)] False resolved =
     (Inr None,
      resolved\<lparr>trace :=
        [Check_call
           (Argv ([''ssh'', ''-L'', ''8265:localhost:8265''] @ get_default_ssh_options ssh1 120
                  @ [''ubuntu@10.0.0.7''] @ with_interactive ''uptime''))
           (Exited 0 [])]\<rparr>)"
  by (simp add: SSHCommandRunner_run_def set_ssh_ip_if_required_def resolved_def fresh_def
      call_or_output_def check_call_def quiet_env_def record_ev_def Let_def s_final_cmd_def
      str_int_8265 ssh1_def str_ip_def truthy_str_def)

text \<open>
  C7, as amended. With \<open>exit_on_fail\<close> set and a command that exits with a non-zero
  status, \<open>KubernetesCommandRunner.run\<close> logs the error record \<open>Command failed\<close> with
  the final command (its last argument quoted once more) and raises \<open>SystemExit(1)\<close>,
  which is not an \<open>Exception\<close>. \<open>SSHCommandRunner.run\<close>, once the address is resolved,
  raises \<open>click.ClickException\<close> with the same text: an \<open>Exception\<close> a caller can
  catch, with no error record and no exit.
\<close>

theorem run_exit_on_fail:
  assumes "rc \<noteq> 0"
  shows
    "(proc_reply env (trace s) (Shell (join '' '' (k_final_cmd k allocate_tty c))) = Exited rc out \<longrightarrow>
        KubernetesCommandRunner_run env k (Some c) timeout allocate_tty True [] with_output s =
          (Inl (SystemExit 1),
           record_ev env (Log_error (k_log_prefix k @ command_failed (k_final_cmd k allocate_tty c)))
             (record_ev env
                ((if with_output then Check_output else Check_call)
                   (Shell (join '' '' (k_final_cmd k allocate_tty c))) (Exited rc out)) s))
        \<and> \<not> is_Exception (SystemExit 1))
     \<and> (set_ssh_ip_if_required env r s = (Inr (), s0) \<and>
        proc_reply env (trace s0)
          (Argv (s_final_cmd r (ssh_ip s0) cmd timeout allocate_tty port_forward)) = Exited rc out \<longrightarrow>
        SSHCommandRunner_run env r cmd timeout allocate_tty True port_forward with_output s =
          (Inl (ClickException
                  (command_failed (s_final_cmd r (ssh_ip s0) cmd timeout allocate_tty port_forward))),
           record_ev env
             ((if with_output then Check_output else Check_call)
                (Argv (s_final_cmd r (ssh_ip s0) cmd timeout allocate_tty port_forward)) (Exited rc out)) s0)
        \<and> is_Exception
            (ClickException
               (command_failed (s_final_cmd r (ssh_ip s0) cmd timeout allocate_tty port_forward))))"
  using assms
  by (simp add: KubernetesCommandRunner_run_def SSHCommandRunner_run_def call_or_output_def
      check_call_def check_output_def truthy_str_def Let_def)

theorem run_exit_on_fail_witness:
  "(1::int) \<noteq> 0
   \<and> proc_reply failing_env (trace fresh) (Shell (join '' '' (k_final_cmd kube1 False ''uptime''))) = Exited 1 []
   \<and> KubernetesCommandRunner_run failing_env kube1 (Some ''uptime'') 120 False True [] False fresh =
       (Inl (SystemExit 1),
        record_ev failing_env
          (Log_error (k_log_prefix kube1 @ command_failed (k_final_cmd kube1 False ''uptime'')))
          (record_ev failing_env
             (Check_call (Shell (join '' '' (k_final_cmd kube1 False ''uptime''))) (Exited 1 [])) fresh))
   \<and> set_ssh_ip_if_required failing_env ssh1 resolved = (Inr (), resolved)
   \<and> proc_reply failing_env (trace resolved)
        (Argv (s_final_cmd ssh1 (ssh_ip resolved) (Some ''uptime'') 120 False [])) = Exited 1 []
   \<and> SSHCommandRunner_run failing_env ssh1 (Some ''uptime'') 120 False True [] False resolved =
       (Inl (ClickException (command_failed (s_final_cmd ssh1 (ssh_ip resolved) (Some ''uptime'') 120 False []))),
        record_ev failing_env
          (Check_call (Argv (s_final_cmd ssh1 (ssh_ip resolved) (Some ''uptime'') 120 False [])) (Exited 1 []))
          resolved)"
proof -
  have a: "(1::int) \<noteq> 0" by simp
  have b: "proc_reply failing_env (trace fresh) (Shell (join '' '' (k_final_cmd kube1 False ''uptime'')))
           = Exited 1 []"
    by (simp add: failing_env_def quiet_env_def)
  have c: "set_ssh_ip_if_required failing_env ssh1 resolved = (Inr (), resolved)"
    by (simp add: set_ssh_ip_if_required_def resolved_def)
  have d: "proc_reply failing_env (trace resolved)
             (Argv (s_final_cmd ssh1 (ssh_ip resolved) (Some ''uptime'') 120 False [])) = Exited 1 []"
    by (simp add: failing_env_def quiet_env_def)
  show ?thesis
    using a b c d
      run_exit_on_fail [OF a, where env = failing_env and s = fresh and k = kube1
        and allocate_tty = False and c = "''uptime''" and out = "[]" and timeout = 120
        and with_output = False]
      run_exit_on_fail [OF a, where env = failing_env and s = resolved and r = ssh1
        and ?s0.0 = resolved and allocate_tty = False and cmd = "Some ''uptime''" and out = "[]"
        and timeout = 120 and with_output = False and port_forward = "[]"]
    by simp
qed

text \<open>
  C7 as stated fails for the SSH runner: with \<open>exit_on_fail\<close> set and \<open>uptime\<close>
  exiting with status 1, the call raises \<open>click.ClickException\<close>, the log holds the
  one process call and no error record, and nothing exits.
\<close>

theorem SSHCommandRunner_run_exit_on_fail_counterexample:
  "SSHCommandRunner_run failing_env ssh1 (Some ''uptime'') 120 False True [] False resolved =
     (Inl (ClickException
        (command_failed ([''ssh''] @ get_default_ssh_options ssh1 120 @ [''ubuntu@10.0.0.7'']
                         @ with_interactive ''uptime''))),
      resolved\<lparr>trace :=
        [Check_call
           (Argv ([''ssh''] @ get_default_ssh_options ssh1 120 @ [''ubuntu@10.0.0.7'']
                  @ with_interactive ''uptime''))
           (Exited 1 [])]\<rparr>)
   \<and> is_Exception
       (ClickException
          (command_failed ([''ssh''] @ get_default_ssh_options ssh1 120 @ [''ubuntu@10.0.0.7'']
                           @ with_interactive ''uptime'')))"
  by (simp add: SSHCommandRunner_run_def set_ssh_ip_if_required_def resolved_def fresh_def
      call_or_output_def check_call_def failing_env_def quiet_env_def record_ev_def Let_def
      s_final_cmd_def ssh1_def str_ip_def truthy_str_def)

section \<open>File mounts\<close>

lemma transport_calls_low: "list_all is_low evs \<Longrightarrow> transport_calls evs = []"
  by (induction evs) (auto simp: transport_calls_def is_low_def)

lemma transport_calls_append [simp]:
  "transport_calls (xs @ ys) = transport_calls xs @ transport_calls ys"
  by (simp add: transport_calls_def)

lemma is_low_quiet: "is_low e \<Longrightarrow> quiet e"
  by (cases e) (simp_all add: is_low_def quiet_def)

lemma cmd_runner_run_calls:
  assumes "cmd_runner_run env cr cmd t tty eof pf wo s = (x, s')"
  shows "steps quiet s s'" and "transport_calls (new_events s s') = [Call_run cmd]"
proof -
  let ?s0 = "record_ev env (Call_run cmd) s"
  have a: "steps quiet s ?s0" by (rule steps_record_ev) (simp add: quiet_def)
  have b: "steps is_low ?s0 s'" by (rule cmd_runner_run_steps [OF assms])
  have b': "steps quiet ?s0 s'" by (rule steps_mono [OF b is_low_quiet])
  show "steps quiet s s'" by (rule steps_trans [OF a b'])
  have "new_events s s' = Call_run cmd # new_events ?s0 s'"
    using new_events_append [OF a b] by simp
  then show "transport_calls (new_events s s') = [Call_run cmd]"
    using transport_calls_low [OF steps_allD [OF b]] by (simp add: transport_calls_def)
qed

lemma apply_sync_calls:
  assumes "apply_sync env u sc a b s = (x, s')"
  shows "steps quiet s s'" and "transport_calls (new_events s s') = [sync_call sc a b]"
proof -
  let ?s0 = "record_ev env (sync_call sc a b) s"
  have q: "quiet (sync_call sc a b)" "is_transport_call (sync_call sc a b)"
    by (cases sc; simp add: quiet_def sync_call_def)+
  have a: "steps quiet s ?s0" by (rule steps_record_ev) (rule q)
  have b: "steps is_low ?s0 s'" by (rule apply_sync_steps [OF assms])
  have b': "steps quiet ?s0 s'" by (rule steps_mono [OF b is_low_quiet])
  show "steps quiet s s'" by (rule steps_trans [OF a b'])
  have "new_events s s' = sync_call sc a b # new_events ?s0 s'"
    using new_events_append [OF a b] by simp
  then show "transport_calls (new_events s s') = [sync_call sc a b]"
    using transport_calls_low [OF steps_allD [OF b]] q by (simp add: transport_calls_def)
qed

lemma sync_file_mounts_loop_calls:
  "sync_file_mounts_loop env u sc ms s = (r, s') \<Longrightarrow>
     steps quiet s s'
     \<and> prefix (transport_calls (new_events s s')) (plan_of_mounts env sc ms)
     \<and> (r = Inr () \<longrightarrow> transport_calls (new_events s s') = plan_of_mounts env sc ms)"
proof (induction ms arbitrary: s)
  case Nil
  then show ?case by (auto simp: steps_refl new_events_def plan_of_mounts_def transport_calls_def)
next
  case (Cons m rest)
  let ?mk = "Some (''mkdir -p '' @ dirname (fst (mount_paths env m)))"
  let ?a = "snd (mount_paths env m)" and ?b = "fst (mount_paths env m)"
  have plan: "plan_of_mounts env sc (m # rest) = [Call_run ?mk, sync_call sc ?a ?b] @ plan_of_mounts env sc rest"
    by (simp add: plan_of_mounts_def mount_calls_def)
  show ?case
  proof (cases "path_exists env (snd m)")
    case False
    then show ?thesis
      using Cons.prems by (auto simp: steps_refl new_events_def transport_calls_def)
  next
    case ex: True
    obtain x1 s1 where c1: "cmd_runner_run env (cmd_runner u) ?mk 120 False False [] False s = (x1, s1)"
      by (cases "cmd_runner_run env (cmd_runner u) ?mk 120 False False [] False s")
    note k1 = cmd_runner_run_calls [OF c1]
    show ?thesis
    proof (cases x1)
      case (Inl e)
      then show ?thesis using Cons.prems ex c1 k1 plan by auto
    next
      case ok1: (Inr y1)
      obtain x2 s2 where c2: "apply_sync env u sc ?a ?b s1 = (x2, s2)"
        by (cases "apply_sync env u sc ?a ?b s1")
      note k2 = apply_sync_calls [OF c2]
      have n2: "new_events s s2 = new_events s s1 @ new_events s1 s2"
        by (rule new_events_append [OF k1(1) k2(1)])
      have st2: "steps quiet s s2" by (rule steps_trans [OF k1(1) k2(1)])
      show ?thesis
      proof (cases x2)
        case (Inl e)
        then show ?thesis using Cons.prems ex c1 ok1 c2 k1 k2 n2 st2 plan by auto
      next
        case ok2: (Inr y2)
        have rec: "sync_file_mounts_loop env u sc rest s2 = (r, s')"
          using Cons.prems ex c1 ok1 c2 ok2 by simp
        note ih = Cons.IH [OF rec]
        have n3: "new_events s s' = new_events s s2 @ new_events s2 s'"
          using new_events_append [OF st2] ih by blast
        have "steps quiet s s'" using steps_trans [OF st2] ih by blast
        then show ?thesis using ih n3 n2 k1 k2 plan by simp
      qed
    qed
  qed
qed

lemmas kube_run_defs =
  cmd_runner_run_def KubernetesCommandRunner_run_def call_or_output_def check_call_def
  apply_sync_def rsync_up_def KubernetesCommandRunner_run_rsync_up_def truthy_str_def Let_def

text \<open>
  C3. The calls that \<open>sync_file_mounts\<close> makes on the command runner are, mount by
  mount in the order of the mapping, the \<open>mkdir -p\<close> of \<open>os.path.dirname\<close> of the
  remote path and then the sync of that mount: always an initial part of that sequence
  (an exception ends it), and the whole of it when the method returns. So no mount is
  synced before its \<open>mkdir\<close> has run, and none before the mounts that precede it. (For
  a local directory the remote path gets its trailing slash first, so the directory made
  is the mount's own; \<open>mkdir -p\<close> makes its parents with it.)
\<close>

theorem sync_file_mounts_in_order:
  "sync_file_mounts env u sc s = (r, s') \<Longrightarrow>
     prefix (transport_calls (new_events s s')) (plan_of_mounts env sc (file_mounts u))
     \<and> (r = Inr () \<longrightarrow> transport_calls (new_events s s') = plan_of_mounts env sc (file_mounts u))"
  using sync_file_mounts_loop_calls [of env u sc "file_mounts u" s r s']
  by (simp add: sync_file_mounts_def)

lemma plan_updater1:
  "plan_of_mounts dir_env Rsync_up (file_mounts updater1) =
     [Call_run (Some ''mkdir -p /app''), Call_rsync_up ''./a'' ''/app/a'',
      Call_run (Some ''mkdir -p /app/b''), Call_rsync_up ''./b/'' ''/app/b/'']"
  by (simp add: plan_of_mounts_def mount_calls_def mount_paths_def dir_env_def quiet_env_def
      updater1_def sync_call_def dirname_def rstrip_slash_def endswith_slash_def)

lemma sync_updater1:
  "fst (sync_file_mounts dir_env updater1 Rsync_up fresh) = Inr ()"
  by (simp add: sync_file_mounts_def updater1_def kube_run_defs dir_env_def quiet_env_def)

theorem sync_file_mounts_in_order_witness:
  "sync_file_mounts dir_env updater1 Rsync_up fresh =
     (Inr (), snd (sync_file_mounts dir_env updater1 Rsync_up fresh))
   \<and> transport_calls (new_events fresh (snd (sync_file_mounts dir_env updater1 Rsync_up fresh))) =
       [Call_run (Some ''mkdir -p /app''), Call_rsync_up ''./a'' ''/app/a'',
        Call_run (Some ''mkdir -p /app/b''), Call_rsync_up ''./b/'' ''/app/b/'']"
proof -
  have h: "sync_file_mounts dir_env updater1 Rsync_up fresh =
             (Inr (), snd (sync_file_mounts dir_env updater1 Rsync_up fresh))"
    using sync_updater1 by (simp add: prod_eq_iff)
  show ?thesis
    using h sync_file_mounts_in_order [OF h] plan_updater1 by simp
qed

lemma sync_file_mounts_loop_append:
  "sync_file_mounts_loop env u sc (pre @ ms) s =
     (case sync_file_mounts_loop env u sc pre s of
        (Inl e, s1) \<Rightarrow> (Inl e, s1)
      | (Inr _, s1) \<Rightarrow> sync_file_mounts_loop env u sc ms s1)"
  by (induction pre arbitrary: s) (auto split: prod.splits sum.splits)

text \<open>
  C8, as amended. Let \<open>m\<close> be a mount of the mapping whose local path does not exist,
  \<open>pre\<close> the mounts before it. \<open>sync_file_mounts\<close> raises, and the runner calls it
  makes are an initial part of those of \<open>pre\<close>: nothing is made or synced for \<open>m\<close> or
  any later mount. When the loop over \<open>pre\<close> goes through, all of \<open>pre\<close> has been made
  and synced and the error is the \<open>AssertionError\<close> on the path of \<open>m\<close>; otherwise the
  method ends as the loop over \<open>pre\<close> does.
\<close>

theorem sync_file_mounts_missing_path:
  assumes "file_mounts u = pre @ m # post"
    and "\<not> path_exists env (snd m)"
    and "sync_file_mounts env u sc s = (r, s')"
  shows "(\<exists>e. r = Inl e)
     \<and> prefix (transport_calls (new_events s s')) (plan_of_mounts env sc pre)
     \<and> (if fst (sync_file_mounts_loop env u sc pre s) = Inr ()
         then r = Inl (AssertionError (snd m))
              \<and> transport_calls (new_events s s') = plan_of_mounts env sc pre
         else (r, s') = sync_file_mounts_loop env u sc pre s)"
proof -
  obtain x s1 where p: "sync_file_mounts_loop env u sc pre s = (x, s1)"
    by (cases "sync_file_mounts_loop env u sc pre s")
  note k = sync_file_mounts_loop_calls [OF p]
  have all: "sync_file_mounts_loop env u sc (pre @ m # post) s = (r, s')"
    using assms(1,3) by (simp add: sync_file_mounts_def)
  show ?thesis
  proof (cases x)
    case (Inl e)
    then have "(r, s') = (Inl e, s1)"
      using all p by (simp add: sync_file_mounts_loop_append)
    then show ?thesis using p Inl k by auto
  next
    case (Inr y)
    then have "(r, s') = (Inl (AssertionError (snd m)), s1)"
      using all p assms(2) by (simp add: sync_file_mounts_loop_append)
    then show ?thesis using p Inr k by auto
  qed
qed

lemma sync_updater2_first:
  "fst (sync_file_mounts_loop missing_env updater2 Rsync_up [(''/app/a'', ''./a'')] fresh) = Inr ()"
  by (simp add: updater2_def updater1_def kube_run_defs missing_env_def quiet_env_def)

lemma plan_updater2_first:
  "plan_of_mounts missing_env Rsync_up [(''/app/a'', ''./a'')] =
     [Call_run (Some ''mkdir -p /app''), Call_rsync_up ''./a'' ''/app/a'']"
  by (simp add: plan_of_mounts_def mount_calls_def mount_paths_def missing_env_def quiet_env_def
      sync_call_def dirname_def rstrip_slash_def endswith_slash_def)

theorem sync_file_mounts_missing_path_witness:
  "file_mounts updater2 = [(''/app/a'', ''./a'')] @ (''/app/b'', ''./missing'') # []
   \<and> \<not> path_exists missing_env (snd (''/app/b'', ''./missing''))
   \<and> fst (sync_file_mounts missing_env updater2 Rsync_up fresh) = Inl (AssertionError ''./missing'')
   \<and> transport_calls (new_events fresh (snd (sync_file_mounts missing_env updater2 Rsync_up fresh))) =
       [Call_run (Some ''mkdir -p /app''), Call_rsync_up ''./a'' ''/app/a'']"
proof -
  have a: "file_mounts updater2 = [(''/app/a'', ''./a'')] @ (''/app/b'', ''./missing'') # []"
    by (simp add: updater2_def)
  have b: "\<not> path_exists missing_env (snd (''/app/b'', ''./missing''))"
    by (simp add: missing_env_def)
  have c: "sync_file_mounts missing_env updater2 Rsync_up fresh =
             (fst (sync_file_mounts missing_env updater2 Rsync_up fresh),
              snd (sync_file_mounts missing_env updater2 Rsync_up fresh))"
    by simp
  show ?thesis
    using a b sync_file_mounts_missing_path [OF a b c] sync_updater2_first plan_updater2_first
    by simp
qed

text \<open>
  C8 as stated fails: with the mounts \<open>/app/a\<close> (present) and \<open>/app/b\<close> (local path
  missing), the method raises \<open>AssertionError\<close> for the missing path after the directory
  of the first mount has been made and the first mount synced.
\<close>

theorem sync_file_mounts_missing_path_counterexample:
  "\<not> path_exists missing_env ''./missing''
   \<and> fst (sync_file_mounts missing_env updater2 Rsync_up fresh) = Inl (AssertionError ''./missing'')
   \<and> filter is_transport_call (trace (snd (sync_file_mounts missing_env updater2 Rsync_up fresh))) =
       [Call_run (Some ''mkdir -p /app''), Call_rsync_up ''./a'' ''/app/a'']"
  by (simp add: sync_file_mounts_def updater2_def updater1_def kube_run_defs missing_env_def
      quiet_env_def fresh_def record_ev_def mount_paths_def dirname_def rstrip_slash_def)

section \<open>Waiting for the node\<close>

text \<open>
  With \<open>exit_on_fail\<close> off, what a call on the command runner raises is an
  \<open>Exception\<close> that the handlers can format.
\<close>

lemma plain_error_simps [simp]:
  "plain_error (CalledProcessError rc c)" "plain_error (FileNotFoundError m)"
  "plain_error (AssertionError m)" "plain_error (ValueError m)" "plain_error (TypeError m)"
  "plain_error (AttributeError m)" "plain_error (PlainException m)" "plain_error (ClickException m)"
  by (simp_all add: plain_error_def)

lemma check_call_plain: "check_call env c s = (Inl e, s') \<Longrightarrow> plain_error e"
  by (auto simp: check_call_def Let_def split: proc_outcome.splits if_splits)

lemma check_output_plain: "check_output env c s = (Inl e, s') \<Longrightarrow> plain_error e"
  by (auto simp: check_output_def Let_def split: proc_outcome.splits if_splits)

lemma call_or_output_plain: "call_or_output env c wo s = (Inl e, s') \<Longrightarrow> plain_error e"
  by (auto simp: call_or_output_def split: if_splits prod.splits sum.splits
      dest: check_call_plain check_output_plain)

lemma wait_for_ip_plain: "wait_for_ip env g t d s = (Inl e, s') \<Longrightarrow> plain_error e"
  by (auto simp: wait_for_ip_def split: if_splits option.splits prod.splits)

lemma check_call_warn_plain: "check_call_warn env c s = (Inl e, s') \<Longrightarrow> plain_error e"
  by (auto simp: check_call_warn_def split: if_splits prod.splits sum.splits dest: check_call_plain)

lemma set_ssh_ip_if_required_plain:
  "set_ssh_ip_if_required env r s = (Inl e, s') \<Longrightarrow> plain_error e"
  unfolding set_ssh_ip_if_required_def SSHCommandRunner_wait_for_ip_def
  by (auto split: if_splits prod.splits sum.splits option.splits
      dest: wait_for_ip_plain check_call_warn_plain)

lemma KubernetesCommandRunner_run_plain:
  "KubernetesCommandRunner_run env k cmd t tty False pf wo s = (Inl e, s') \<Longrightarrow> plain_error e"
  unfolding KubernetesCommandRunner_run_def Let_def
  by (auto split: if_splits prod.splits sum.splits option.splits proc_outcome.splits
      dest: call_or_output_plain)

lemma SSHCommandRunner_run_plain:
  "SSHCommandRunner_run env r cmd t tty False pf wo s = (Inl e, s') \<Longrightarrow> plain_error e"
  unfolding SSHCommandRunner_run_def
  by (auto split: if_splits prod.splits sum.splits
      dest: call_or_output_plain set_ssh_ip_if_required_plain)

lemma cmd_runner_run_plain:
  "cmd_runner_run env cr cmd t tty False pf wo s = (Inl e, s') \<Longrightarrow> plain_error e"
  unfolding cmd_runner_run_def
  by (auto split: command_runner.splits
      dest: KubernetesCommandRunner_run_plain SSHCommandRunner_run_plain)

lemma steps_any: "steps P s s' \<Longrightarrow> steps any_event s s'"
  by (erule steps_mono) (simp add: any_event_def)

lemma wait_ready_round:
  assumes "clock s < d" and "\<not> fst (is_terminated env (node_id u) s)"
    and "cmd_runner_run env (cmd_runner u) (Some ''uptime'') 5 False False [] False
           (snd (is_terminated env (node_id u) s)) = (Inl e, s2)"
  shows "wait_ready env u d s = wait_ready env u d (sleep env READY_CHECK_INTERVAL s2)"
    and "steps quiet s (sleep env READY_CHECK_INTERVAL s2)"
    and "transport_calls (new_events s (sleep env READY_CHECK_INTERVAL s2)) = [Call_run (Some ''uptime'')]"
    and "clock s + 5 \<le> clock (sleep env READY_CHECK_INTERVAL s2)"
proof -
  let ?s1 = "snd (is_terminated env (node_id u) s)"
  let ?s3 = "sleep env READY_CHECK_INTERVAL s2"
  have p: "plain_error e" by (rule cmd_runner_run_plain [OF assms(3)])
  show "wait_ready env u d s = wait_ready env u d ?s3"
    using assms p by (subst wait_ready.simps) (auto simp: plain_error_def)
  have a: "steps quiet s ?s1" by (rule steps_mono [OF steps_is_terminated is_low_quiet])
  have a': "steps is_low s ?s1" by (rule steps_is_terminated)
  note k = cmd_runner_run_calls [OF assms(3)]
  have c: "steps quiet s2 ?s3" by (rule steps_sleep) (simp add: quiet_def)
  have c': "steps is_low s2 ?s3" by (rule steps_sleep) simp
  have s2: "steps quiet s s2" by (rule steps_trans [OF a k(1)])
  show "steps quiet s ?s3" by (rule steps_trans [OF s2 c])
  have "new_events s ?s3 = new_events s ?s1 @ new_events ?s1 s2 @ new_events s2 ?s3"
    using new_events_append [OF s2 c] new_events_append [OF a k(1)] by simp
  then show "transport_calls (new_events s ?s3) = [Call_run (Some ''uptime'')]"
    using k(2) transport_calls_low [OF steps_allD [OF a']] transport_calls_low [OF steps_allD [OF c']]
    by simp
  show "clock s + 5 \<le> clock ?s3"
    using steps_clockD [OF s2] clock_sleep [of s2 READY_CHECK_INTERVAL env]
    by (simp add: READY_CHECK_INTERVAL_def)
qed

lemma wait_ready_steps: "steps quiet s (snd (wait_ready env u d s))"
proof (induction env u d s rule: wait_ready.induct)
  case (1 env u d s)
  let ?s1 = "snd (is_terminated env (node_id u) s)"
  have a: "steps quiet s ?s1" by (rule steps_mono [OF steps_is_terminated is_low_quiet])
  show ?case
  proof (cases "clock s < d \<and> \<not> fst (is_terminated env (node_id u) s)")
    case False
    then show ?thesis
      using a by (subst wait_ready.simps) (auto simp: steps_refl)
  next
    case True
    obtain x s2 where c: "cmd_runner_run env (cmd_runner u) (Some ''uptime'') 5 False False [] False ?s1 = (x, s2)"
      by (cases "cmd_runner_run env (cmd_runner u) (Some ''uptime'') 5 False False [] False ?s1")
    have s2: "steps quiet s s2" by (rule steps_trans [OF a cmd_runner_run_calls(1) [OF c]])
    show ?thesis
    proof (cases "\<exists>e. x = Inl e \<and> is_Exception e \<and> \<not> (has_cmd e \<and> \<not> has_returncode e)")
      case False
      then show ?thesis
        using True c s2 by (subst wait_ready.simps) (auto split: sum.splits)
    next
      case again: True
      then obtain e where x: "x = Inl e" and e: "is_Exception e" "\<not> (has_cmd e \<and> \<not> has_returncode e)"
        by blast
      let ?s3 = "sleep env READY_CHECK_INTERVAL s2"
      have c3: "steps quiet s2 ?s3" by (rule steps_sleep) (simp add: quiet_def)
      have ih: "steps quiet ?s3 (snd (wait_ready env u d ?s3))"
        by (rule "1.IH" [OF True c [symmetric] x e])
      have "wait_ready env u d s = wait_ready env u d ?s3"
        using True c x e by (subst wait_ready.simps) auto
      then show ?thesis
        using steps_trans [OF steps_trans [OF s2 c3] ih] by simp
    qed
  qed
qed

lemma round_bound:
  fixes k :: int
  shows "k * 5 \<le> max 0 (d - c3 + 4) \<Longrightarrow> c + 5 \<le> c3 \<Longrightarrow> c < d \<Longrightarrow> 0 \<le> k
    \<Longrightarrow> (1 + k) * 5 \<le> max 0 (d - c + 4)"
  by (auto simp: max_def split: if_splits)

text \<open>
  \<open>wait_ready\<close> ends in one of two ways: it returns \<open>True\<close> from an attempt that
  succeeded, or it leaves the loop and fails its \<open>assert False\<close>, with the clock at the
  deadline or past it, or with the node reported terminated.
\<close>

lemma wait_ready_outcome:
  "(fst (wait_ready env u d s) = Inr True
      \<and> (\<exists>s1 x. steps any_event s s1
            \<and> cmd_runner_run env (cmd_runner u) (Some ''uptime'') 5 False False [] False s1 =
                (Inr x, snd (wait_ready env u d s))))
   \<or> (fst (wait_ready env u d s) = Inl (AssertionError ''Unable to connect to node'')
      \<and> (d \<le> clock (snd (wait_ready env u d s))
          \<or> (\<exists>s1. steps any_event s s1
                \<and> is_terminated env (node_id u) s1 = (True, snd (wait_ready env u d s)))))"
proof (induction env u d s rule: wait_ready.induct)
  case (1 env u d s)
  let ?s1 = "snd (is_terminated env (node_id u) s)"
  have a': "steps is_low s ?s1" by (rule steps_is_terminated)
  show ?case
  proof (cases "clock s < d")
    case False
    then show ?thesis by (subst (1 2 3 4) wait_ready.simps) simp
  next
    case lt: True
    show ?thesis
    proof (cases "fst (is_terminated env (node_id u) s)")
      case True
      then have t: "is_terminated env (node_id u) s = (True, ?s1)"
        by (metis prod.collapse)
      have r: "wait_ready env u d s = (Inl (AssertionError ''Unable to connect to node''), ?s1)"
        using lt True by (subst wait_ready.simps) simp
      have "steps any_event s s" by (rule steps_refl)
      then show ?thesis unfolding r using t by auto
    next
      case nt: False
      obtain x s2 where c: "cmd_runner_run env (cmd_runner u) (Some ''uptime'') 5 False False [] False ?s1 = (x, s2)"
        by (cases "cmd_runner_run env (cmd_runner u) (Some ''uptime'') 5 False False [] False ?s1")
      show ?thesis
      proof (cases x)
        case (Inr y)
        have r: "wait_ready env u d s = (Inr True, s2)"
          using lt nt c Inr by (subst wait_ready.simps) simp
        show ?thesis unfolding r using steps_any [OF a'] c Inr by auto
      next
        case (Inl e)
        let ?s3 = "sleep env READY_CHECK_INTERVAL s2"
        have c': "cmd_runner_run env (cmd_runner u) (Some ''uptime'') 5 False False [] False ?s1 = (Inl e, s2)"
          using c Inl by simp
        note r = wait_ready_round [OF lt nt c']
        have p: "is_Exception e" "\<not> (has_cmd e \<and> \<not> has_returncode e)"
          using cmd_runner_run_plain [OF c'] by (auto simp: plain_error_def)
        have st: "steps any_event s ?s3" by (rule steps_any [OF r(2)])
        have tr: "\<And>s1. steps any_event ?s3 s1 \<Longrightarrow> steps any_event s s1"
          by (rule steps_trans [OF st])
        have cond: "clock s < d \<and> \<not> fst (is_terminated env (node_id u) s)" using lt nt by simp
        note ih = "1.IH" [OF cond c [symmetric] Inl p]
        show ?thesis
          unfolding r(1) using ih tr by blast
      qed
    qed
  qed
qed

text \<open>
  Rounds start at least five seconds apart and only before the deadline, which bounds the
  number of attempts.
\<close>

lemma wait_ready_attempts:
  "int (length (transport_calls (new_events s (snd (wait_ready env u d s))))) * 5
     \<le> max 0 (d - clock s + 4)"
proof (induction env u d s rule: wait_ready.induct)
  case (1 env u d s)
  let ?s1 = "snd (is_terminated env (node_id u) s)"
  have a': "steps is_low s ?s1" by (rule steps_is_terminated)
  have a: "steps quiet s ?s1" by (rule steps_mono [OF a' is_low_quiet])
  show ?case
  proof (cases "clock s < d \<and> \<not> fst (is_terminated env (node_id u) s)")
    case False
    have "transport_calls (new_events s ?s1) = []"
      by (rule transport_calls_low [OF steps_allD [OF a']])
    then show ?thesis
      using False by (subst wait_ready.simps) (simp add: new_events_def transport_calls_def)
  next
    case True
    then have lt: "clock s < d" and nt: "\<not> fst (is_terminated env (node_id u) s)" by simp_all
    obtain x s2 where c: "cmd_runner_run env (cmd_runner u) (Some ''uptime'') 5 False False [] False ?s1 = (x, s2)"
      by (cases "cmd_runner_run env (cmd_runner u) (Some ''uptime'') 5 False False [] False ?s1")
    note k = cmd_runner_run_calls [OF c]
    show ?thesis
    proof (cases x)
      case (Inr y)
      have r: "wait_ready env u d s = (Inr True, s2)"
        using lt nt c Inr by (subst wait_ready.simps) simp
      have "new_events s s2 = new_events s ?s1 @ new_events ?s1 s2"
        by (rule new_events_append [OF a k(1)])
      then have "transport_calls (new_events s s2) = [Call_run (Some ''uptime'')]"
        using k(2) transport_calls_low [OF steps_allD [OF a']] by simp
      then show ?thesis unfolding r using lt by simp
    next
      case (Inl e)
      let ?s3 = "sleep env READY_CHECK_INTERVAL s2"
      let ?s4 = "snd (wait_ready env u d ?s3)"
      have c': "cmd_runner_run env (cmd_runner u) (Some ''uptime'') 5 False False [] False ?s1 = (Inl e, s2)"
        using c Inl by simp
      note r = wait_ready_round [OF lt nt c']
      have p: "is_Exception e" "\<not> (has_cmd e \<and> \<not> has_returncode e)"
        using cmd_runner_run_plain [OF c'] by (auto simp: plain_error_def)
      have ih: "int (length (transport_calls (new_events ?s3 ?s4))) * 5 \<le> max 0 (d - clock ?s3 + 4)"
        by (rule "1.IH" [OF True c [symmetric] Inl p])
      have n: "new_events s ?s4 = new_events s ?s3 @ new_events ?s3 ?s4"
        by (rule new_events_append [OF r(2) wait_ready_steps])
      have "int (length (transport_calls (new_events s ?s4)))
              = 1 + int (length (transport_calls (new_events ?s3 ?s4)))"
        using n r(3) by simp
      moreover have "(1 + int (length (transport_calls (new_events ?s3 ?s4)))) * 5
              \<le> max 0 (d - clock s + 4)"
        using ih r(4) lt
        by (intro round_bound [of _ d "clock ?s3" "clock s"]) simp_all
      ultimately show ?thesis
        using r(1) by simp
    qed
  qed
qed

text \<open>
  C4. \<open>wait_ready\<close> is a total function: the loop ends for every environment, updater,
  deadline and state. It ends in one of two ways. Either some attempt at the readiness
  command \<open>uptime\<close> succeeded, in a state the run reached, and the call returns \<open>True\<close>
  from there. Or the call raises the \<open>AssertionError\<close> \<open>Unable to connect to node\<close>,
  and then the clock has reached the deadline or the provider has just reported the node
  terminated. So a run in which no attempt succeeds and the node is never reported
  terminated stops with that error once the clock has passed the deadline. In every run
  at most \<open>(deadline - now + 4) div 5\<close> attempts are made, none when the deadline has
  passed at the call.
\<close>

theorem wait_ready_gives_up:
  "((fst (wait_ready env u deadline s) = Inr True
      \<and> (\<exists>s1 x. steps any_event s s1
            \<and> cmd_runner_run env (cmd_runner u) (Some ''uptime'') 5 False False [] False s1 =
                (Inr x, snd (wait_ready env u deadline s))))
    \<or> (fst (wait_ready env u deadline s) = Inl (AssertionError ''Unable to connect to node'')
      \<and> (deadline \<le> clock (snd (wait_ready env u deadline s))
          \<or> (\<exists>s1. steps any_event s s1
                \<and> is_terminated env (node_id u) s1 = (True, snd (wait_ready env u deadline s))))))
   \<and> int (length (transport_calls (new_events s (snd (wait_ready env u deadline s))))) * 5
        \<le> max 0 (deadline - clock s + 4)"
  using wait_ready_outcome [of env u deadline s] wait_ready_attempts [of s env u deadline]
  by blast

text \<open>
  An instance: every process exits with status 1, the deadline is 12 seconds away. Three
  attempts are made (at 0, 5 and 10 seconds), then the assertion fails at 15 seconds.
\<close>

lemma wait_ready_three_rounds:
  "fst (wait_ready failing_env updater1 12 fresh) = Inl (AssertionError ''Unable to connect to node'')
   \<and> clock (snd (wait_ready failing_env updater1 12 fresh)) = 15
   \<and> transport_calls (new_events fresh (snd (wait_ready failing_env updater1 12 fresh))) =
     [Call_run (Some ''uptime''), Call_run (Some ''uptime''), Call_run (Some ''uptime'')]"
  by (simp add: wait_ready.simps updater1_def kube_run_defs failing_env_def quiet_env_def fresh_def
      is_terminated_def record_ev_def sleep_def READY_CHECK_INTERVAL_def new_events_def
      transport_calls_def)

theorem wait_ready_gives_up_witness:
  "fst (wait_ready failing_env updater1 12 fresh) = Inl (AssertionError ''Unable to connect to node'')
   \<and> 12 \<le> clock (snd (wait_ready failing_env updater1 12 fresh))
   \<and> length (transport_calls (new_events fresh (snd (wait_ready failing_env updater1 12 fresh)))) = 3
   \<and> int (length (transport_calls (new_events fresh (snd (wait_ready failing_env updater1 12 fresh))))) * 5
        \<le> max 0 (12 - clock fresh + 4)"
  using wait_ready_gives_up [of failing_env updater1 12 fresh] wait_ready_three_rounds
  by simp

section \<open>The update\<close>

lemma follows_plan_seq:
  assumes "follows_plan s (x, s1) p1"
    and "\<And>y. x = Inr y \<Longrightarrow> follows_plan s1 res p2"
  shows "follows_plan s (case x of Inl e \<Rightarrow> (Inl e, s1) | Inr y \<Rightarrow> res) (p1 @ p2)"
proof (cases x)
  case (Inl e)
  then show ?thesis using assms(1) by (auto simp: follows_plan_def)
next
  case (Inr y)
  have a: "steps quiet s s1" and b: "transport_calls (new_events s s1) = p1"
    using assms(1) Inr by (auto simp: follows_plan_def)
  have c: "follows_plan s1 res p2" by (rule assms(2) [OF Inr])
  then have c1: "steps quiet s1 (snd res)" by (simp add: follows_plan_def)
  have n: "new_events s (snd res) = new_events s s1 @ new_events s1 (snd res)"
    by (rule new_events_append [OF a c1])
  show ?thesis
    using Inr a b c n steps_trans [OF a c1] by (auto simp: follows_plan_def)
qed

lemma follows_plan_after_tags:
  assumes "follows_plan (set_node_tags env n tags s) res p"
  shows "follows_plan s res p"
proof -
  let ?s0 = "set_node_tags env n tags s"
  have a: "steps quiet s ?s0"
    unfolding set_node_tags_def by (rule steps_record_ev) (simp add: quiet_def)
  have c1: "steps quiet ?s0 (snd res)" using assms by (simp add: follows_plan_def)
  have n: "new_events s (snd res) = new_events s ?s0 @ new_events ?s0 (snd res)"
    by (rule new_events_append [OF a c1])
  have "new_events s ?s0 = [Set_node_tags n tags]" by (simp add: set_node_tags_def)
  then show ?thesis
    using assms n steps_trans [OF a c1] by (simp add: follows_plan_def transport_calls_def)
qed

lemma run_commands_follows_plan:
  "follows_plan s (run_commands env u cs s) (command_calls cs)"
proof (induction cs arbitrary: s)
  case Nil
  then show ?case
    by (simp add: follows_plan_def steps_refl new_events_def transport_calls_def command_calls_def)
next
  case (Cons c cs)
  obtain x s1 where r: "cmd_runner_run env (cmd_runner u) (Some c) 120 False False [] False s = (x, s1)"
    by (cases "cmd_runner_run env (cmd_runner u) (Some c) 120 False False [] False s")
  note k = cmd_runner_run_calls [OF r]
  have a: "follows_plan s (Inr () :: error + unit, s1) [Call_run (Some c)]"
    using k by (simp add: follows_plan_def)
  have "follows_plan s
          (case (Inr () :: error + unit) of Inl e \<Rightarrow> (Inl e, s1)
           | Inr y \<Rightarrow> run_commands env u cs s1)
          ([Call_run (Some c)] @ command_calls cs)"
    by (rule follows_plan_seq [OF a Cons.IH])
  then have ok: "follows_plan s (run_commands env u cs s1) (command_calls (c # cs))"
    by (simp add: command_calls_def)
  show ?case
  proof (cases x)
    case (Inl e)
    then show ?thesis using r k by (simp add: follows_plan_def command_calls_def)
  next
    case (Inr y)
    then show ?thesis using r ok by simp
  qed
qed

lemma sync_file_mounts_follows_plan:
  "follows_plan s (sync_file_mounts env u sc s) (plan_of_mounts env sc (file_mounts u))"
  using sync_file_mounts_loop_calls
    [of env u sc "file_mounts u" s "fst (sync_file_mounts env u sc s)" "snd (sync_file_mounts env u sc s)"]
  by (cases "fst (sync_file_mounts env u sc s)") (auto simp: follows_plan_def sync_file_mounts_def)


lemma follows_plan_fail:
  "follows_plan s (Inl e, s1) p1 \<Longrightarrow> follows_plan s (Inl e, s1) (p1 @ p2)"
  by (auto simp: follows_plan_def)

lemma follows_plan_then:
  assumes "follows_plan s (Inr y, s1) p1" and "follows_plan s1 res p2"
  shows "follows_plan s res (p1 @ p2)"
  using follows_plan_seq [OF assms(1), of res p2] assms(2) by simp

lemma after_tags_read_append:
  "list_all quiet pre \<Longrightarrow> after_tags_read (pre @ Node_tags n tags # post) = post"
  by (induction pre) (auto simp: after_tags_read_def quiet_def)

text \<open>The entries before the read of the tags, and the runner calls on either side of it.\<close>

lemma before_read_quiet: "before_read e \<Longrightarrow> quiet e"
  by (cases e) (simp_all add: before_read_def quiet_def)

lemma is_low_before_read: "is_low e \<Longrightarrow> before_read e"
  by (cases e) (simp_all add: before_read_def is_low_def)

lemma before_tags_read_append:
  "list_all quiet pre \<Longrightarrow> before_tags_read (pre @ Node_tags n tags # post) = pre"
  by (induction pre) (auto simp: before_tags_read_def quiet_def)

lemma transport_calls_before_read:
  "list_all before_read evs \<Longrightarrow> list_all is_probe (transport_calls evs)"
  by (induction evs) (auto simp: transport_calls_def before_read_def)

lemma is_tags_read_no_call: "is_tags_read e \<Longrightarrow> \<not> is_transport_call e"
  by (cases e) simp_all

lemma transport_calls_read_split:
  "transport_calls evs =
     transport_calls (before_tags_read evs) @ transport_calls (after_tags_read evs)"
  by (induction evs)
     (auto simp: transport_calls_def before_tags_read_def after_tags_read_def
        dest: is_tags_read_no_call)

text \<open>Up to its return \<open>wait_ready\<close> gives the runner nothing but the probe.\<close>

lemma cmd_runner_run_probe:
  assumes "cmd_runner_run env cr (Some ''uptime'') t tty eof pf wo s = (x, s')"
  shows "steps before_read s s'"
proof -
  let ?s0 = "record_ev env (Call_run (Some ''uptime'')) s"
  have a: "steps before_read s ?s0" by (rule steps_record_ev) (simp add: before_read_def)
  have b: "steps is_low ?s0 s'" by (rule cmd_runner_run_steps [OF assms])
  show ?thesis by (rule steps_trans [OF a steps_mono [OF b is_low_before_read]])
qed

lemma wait_ready_probes: "steps before_read s (snd (wait_ready env u d s))"
proof (induction env u d s rule: wait_ready.induct)
  case (1 env u d s)
  let ?s1 = "snd (is_terminated env (node_id u) s)"
  have a: "steps before_read s ?s1" by (rule steps_mono [OF steps_is_terminated is_low_before_read])
  show ?case
  proof (cases "clock s < d \<and> \<not> fst (is_terminated env (node_id u) s)")
    case False
    then show ?thesis
      using a by (subst wait_ready.simps) (auto simp: steps_refl)
  next
    case True
    obtain x s2 where c: "cmd_runner_run env (cmd_runner u) (Some ''uptime'') 5 False False [] False ?s1 = (x, s2)"
      by (cases "cmd_runner_run env (cmd_runner u) (Some ''uptime'') 5 False False [] False ?s1")
    have s2: "steps before_read s s2" by (rule steps_trans [OF a cmd_runner_run_probe [OF c]])
    show ?thesis
    proof (cases "\<exists>e. x = Inl e \<and> is_Exception e \<and> \<not> (has_cmd e \<and> \<not> has_returncode e)")
      case False
      then show ?thesis
        using True c s2 by (subst wait_ready.simps) (auto split: sum.splits)
    next
      case again: True
      then obtain e where x: "x = Inl e" and e: "is_Exception e" "\<not> (has_cmd e \<and> \<not> has_returncode e)"
        by blast
      let ?s3 = "sleep env READY_CHECK_INTERVAL s2"
      have c3: "steps before_read s2 ?s3" by (rule steps_sleep) (simp add: before_read_def)
      have ih: "steps before_read ?s3 (snd (wait_ready env u d ?s3))"
        by (rule "1.IH" [OF True c [symmetric] x e])
      have "wait_ready env u d s = wait_ready env u d ?s3"
        using True c x e by (subst wait_ready.simps) auto
      then show ?thesis
        using steps_trans [OF steps_trans [OF s2 c3] ih] by simp
    qed
  qed
qed

text \<open>
  A command loop, and the loop over the mounts, that raises ends in the step that raised:
  the exception and the final state are those of that step.
\<close>

lemma run_commands_raise:
  "run_commands env u cs s = (Inl e, s') \<Longrightarrow>
     \<exists>s1 c. steps quiet s s1
       \<and> cmd_runner_run env (cmd_runner u) (Some c) 120 False False [] False s1 = (Inl e, s')"
proof (induction cs arbitrary: s)
  case Nil
  then show ?case by simp
next
  case (Cons c cs)
  obtain x s1 where r: "cmd_runner_run env (cmd_runner u) (Some c) 120 False False [] False s = (x, s1)"
    by (cases "cmd_runner_run env (cmd_runner u) (Some c) 120 False False [] False s")
  show ?case
  proof (cases x)
    case (Inl e')
    then have "cmd_runner_run env (cmd_runner u) (Some c) 120 False False [] False s = (Inl e, s')"
      using Cons.prems r by simp
    then show ?thesis using steps_refl [of quiet s] by blast
  next
    case (Inr y)
    then have "run_commands env u cs s1 = (Inl e, s')" using Cons.prems r by simp
    from Cons.IH [OF this] obtain s2 c' where
      "steps quiet s1 s2"
      "cmd_runner_run env (cmd_runner u) (Some c') 120 False False [] False s2 = (Inl e, s')"
      by blast
    then show ?thesis
      using steps_trans [OF cmd_runner_run_calls(1) [OF r]] by blast
  qed
qed

lemma sync_file_mounts_loop_raise:
  "sync_file_mounts_loop env u sc ms s = (Inl e, s') \<Longrightarrow>
     \<exists>s1. steps quiet s s1
       \<and> ((\<exists>c. cmd_runner_run env (cmd_runner u) (Some c) 120 False False [] False s1 = (Inl e, s'))
          \<or> (\<exists>a b. apply_sync env u sc a b s1 = (Inl e, s'))
          \<or> (s' = s1 \<and> (\<exists>m \<in> set ms. \<not> path_exists env (snd m) \<and> e = AssertionError (snd m))))"
proof (induction ms arbitrary: s)
  case Nil
  then show ?case by simp
next
  case (Cons m rest)
  let ?mk = "Some (''mkdir -p '' @ dirname (fst (mount_paths env m)))"
  let ?a = "snd (mount_paths env m)" and ?b = "fst (mount_paths env m)"
  show ?case
  proof (cases "path_exists env (snd m)")
    case False
    then have "s' = s" "e = AssertionError (snd m)" using Cons.prems by simp_all
    then show ?thesis using False steps_refl [of quiet s] by auto
  next
    case ex: True
    obtain x1 s1 where c1: "cmd_runner_run env (cmd_runner u) ?mk 120 False False [] False s = (x1, s1)"
      by (cases "cmd_runner_run env (cmd_runner u) ?mk 120 False False [] False s")
    note k1 = cmd_runner_run_calls [OF c1]
    show ?thesis
    proof (cases x1)
      case (Inl e')
      then have "cmd_runner_run env (cmd_runner u) ?mk 120 False False [] False s = (Inl e, s')"
        using Cons.prems ex c1 by simp
      then show ?thesis using steps_refl [of quiet s] by blast
    next
      case ok1: (Inr y1)
      obtain x2 s2 where c2: "apply_sync env u sc ?a ?b s1 = (x2, s2)"
        by (cases "apply_sync env u sc ?a ?b s1")
      note k2 = apply_sync_calls [OF c2]
      have st2: "steps quiet s s2" by (rule steps_trans [OF k1(1) k2(1)])
      show ?thesis
      proof (cases x2)
        case (Inl e')
        then have "apply_sync env u sc ?a ?b s1 = (Inl e, s')"
          using Cons.prems ex c1 ok1 c2 by simp
        then show ?thesis using k1(1) by blast
      next
        case ok2: (Inr y2)
        have rec: "sync_file_mounts_loop env u sc rest s2 = (Inl e, s')"
          using Cons.prems ex c1 ok1 c2 ok2 by simp
        from Cons.IH [OF rec] obtain s3 where
          a: "steps quiet s2 s3"
          and b: "(\<exists>c. cmd_runner_run env (cmd_runner u) (Some c) 120 False False [] False s3 = (Inl e, s'))
          \<or> (\<exists>a b. apply_sync env u sc a b s3 = (Inl e, s'))
          \<or> (s' = s3 \<and> (\<exists>m \<in> set rest. \<not> path_exists env (snd m) \<and> e = AssertionError (snd m)))"
          by blast
        have "steps quiet s s3" by (rule steps_trans [OF st2 a])
        moreover have "(\<exists>c. cmd_runner_run env (cmd_runner u) (Some c) 120 False False [] False s3 = (Inl e, s'))
          \<or> (\<exists>a b. apply_sync env u sc a b s3 = (Inl e, s'))
          \<or> (s' = s3 \<and> (\<exists>m \<in> set (m # rest). \<not> path_exists env (snd m) \<and> e = AssertionError (snd m)))"
          using b by auto
        ultimately show ?thesis by blast
      qed
    qed
  qed
qed

lemma run_commands_raised_at:
  assumes "steps quiet s4 s5" and "run_commands env u cs s5 = (r, s')"
  shows "\<forall>e. r = Inl e \<longrightarrow> (\<exists>s1. steps quiet s4 s1 \<and> raised_at env u e s1 s')"
proof (intro allI impI)
  fix e assume "r = Inl e"
  then have "run_commands env u cs s5 = (Inl e, s')" using assms(2) by simp
  from run_commands_raise [OF this] obtain s1 c where
    "steps quiet s5 s1"
    "cmd_runner_run env (cmd_runner u) (Some c) 120 False False [] False s1 = (Inl e, s')"
    by blast
  then show "\<exists>s1. steps quiet s4 s1 \<and> raised_at env u e s1 s'"
    using steps_trans [OF assms(1)] by blast
qed

lemma sync_file_mounts_raised_at:
  assumes "steps quiet s4 s5" and "sync_file_mounts env u Rsync_up s5 = (Inl e, s')"
  shows "\<exists>s1. steps quiet s4 s1 \<and> raised_at env u e s1 s'"
proof -
  have "sync_file_mounts_loop env u Rsync_up (file_mounts u) s5 = (Inl e, s')"
    using assms(2) by (simp add: sync_file_mounts_def)
  from sync_file_mounts_loop_raise [OF this] obtain s1 where
    a: "steps quiet s5 s1"
    and b: "(\<exists>c. cmd_runner_run env (cmd_runner u) (Some c) 120 False False [] False s1 = (Inl e, s'))
          \<or> (\<exists>a b. apply_sync env u Rsync_up a b s1 = (Inl e, s'))
          \<or> (s' = s1 \<and> (\<exists>m \<in> set (file_mounts u). \<not> path_exists env (snd m) \<and> e = AssertionError (snd m)))"
    by blast
  have "steps quiet s4 s1" by (rule steps_trans [OF assms(1) a])
  moreover have "raised_at env u e s1 s'" using b by (simp add: apply_sync_def)
  ultimately show ?thesis by blast
qed

text \<open>
  The shape of a run of \<open>do_update\<close>. Either it raises before it reads the tags, having
  given the runner nothing but probes; or its log is a part with nothing but probes, the
  read of the tags, and a part that follows the plan for these tags, and if the run
  raises, it ends in the step that raised.
\<close>

lemma do_update_shape:
  assumes "do_update env u s = (r, s')"
  shows "steps any_event s s'
     \<and> ((list_all before_read (new_events s s') \<and> isl r)
        \<or> (\<exists>pre tags s4. new_events s s' = pre @ Node_tags (node_id u) tags # new_events s4 s'
               \<and> list_all before_read pre \<and> steps any_event s s4
               \<and> follows_plan s4 (r, s') (plan_after_read env u tags)
               \<and> (\<forall>e. r = Inl e \<longrightarrow> (\<exists>s1. steps quiet s4 s1 \<and> raised_at env u e s1 s'))))"
proof -
  let ?A = "if remove_node_from_known_hosts_before_use u then remove_node_from_known_hosts env u s
            else (Inr (), s)"
  obtain x1 s1 where A: "?A = (x1, s1)" by (cases ?A)
  have st1: "steps before_read s s1"
    using A by (auto simp: steps_refl split: if_splits
        dest!: remove_node_from_known_hosts_steps intro: steps_mono [OF _ is_low_before_read])
  show ?thesis
  proof (cases x1)
    case (Inl e)
    then have "(r, s') = (Inl e, s1)" using assms A by (simp add: do_update_def)
    then show ?thesis using st1 steps_allD steps_any [OF st1] by auto
  next
    case ok1: (Inr y1)
    let ?s2 = "set_node_tags env (node_id u) [(TAG_RAY_NODE_STATUS, STATUS_WAITING_FOR_SSH)] s1"
    have st2: "steps before_read s1 ?s2"
      unfolding set_node_tags_def by (rule steps_record_ev) (simp add: before_read_def)
    obtain x3 s3 where W: "wait_ready env u (clock ?s2 + NODE_START_WAIT_S) ?s2 = (x3, s3)"
      by (cases "wait_ready env u (clock ?s2 + NODE_START_WAIT_S) ?s2")
    have st3: "steps before_read ?s2 s3"
      using wait_ready_probes [of ?s2 env u "clock ?s2 + NODE_START_WAIT_S"] W by simp
    have st03: "steps before_read s s3" by (rule steps_trans [OF steps_trans [OF st1 st2] st3])
    show ?thesis
    proof (cases x3)
      case (Inl e)
      then have "(r, s') = (Inl e, s3)" using assms A ok1 W by (simp add: do_update_def Let_def)
      then show ?thesis using st03 steps_allD steps_any [OF st03] by auto
    next
      case ok3: (Inr y3)
      let ?tags = "tags_reply env (trace s3) (node_id u)"
      let ?s4 = "record_ev env (Node_tags (node_id u) ?tags) s3"
      let ?s4' = "set_node_tags env (node_id u) [(TAG_RAY_NODE_STATUS, STATUS_SYNCING_FILES)] ?s4"
      let ?mounted = "sync_file_mounts env u Rsync_up ?s4'"
      let ?start = "command_calls (ray_start_commands u)"
      let ?R = "\<forall>e. r = Inl e \<longrightarrow> (\<exists>s1. steps quiet ?s4 s1 \<and> raised_at env u e s1 s')"
      have q4: "steps quiet ?s4 ?s4'"
        unfolding set_node_tags_def by (rule steps_record_ev) (simp add: quiet_def)
      have body: "follows_plan ?s4 (r, s') (plan_after_read env u ?tags) \<and> ?R"
      proof (cases "map_of ?tags TAG_RAY_RUNTIME_CONFIG = Some (runtime_hash u)")
        case True
        then have eq: "run_commands env u (ray_start_commands u) ?s4 = (r, s')"
          using assms A ok1 W ok3 by (simp add: do_update_def Let_def node_tags_def)
        have "follows_plan ?s4 (r, s') (plan_after_read env u ?tags)"
          using True run_commands_follows_plan [of ?s4 env u "ray_start_commands u"] eq
          by (simp add: plan_after_read_def)
        moreover have ?R by (rule run_commands_raised_at [OF steps_refl eq])
        ultimately show ?thesis by blast
      next
        case False
        obtain x5 s5 where M: "?mounted = (x5, s5)" by (cases ?mounted)
        have f5: "follows_plan ?s4 (x5, s5) (plan_of_mounts env Rsync_up (file_mounts u))"
          using follows_plan_after_tags [OF sync_file_mounts_follows_plan] M by metis
        have "follows_plan ?s4 (r, s') (full_plan env u) \<and> ?R"
        proof (cases x5)
          case (Inl e)
          then have eq: "(r, s') = (Inl e, s5)"
            using assms A ok1 W ok3 False M by (simp add: do_update_def Let_def node_tags_def)
          have "\<exists>s1. steps quiet ?s4 s1 \<and> raised_at env u e s1 s5"
            using sync_file_mounts_raised_at [OF q4] M Inl by simp
          then have ?R using eq by simp
          then show ?thesis
            using eq follows_plan_fail [OF f5 [unfolded Inl]] by (simp add: full_plan_def)
        next
          case ok5: (Inr y5)
          let ?s5' = "set_node_tags env (node_id u) [(TAG_RAY_NODE_STATUS, STATUS_SETTING_UP)] s5"
          let ?init = "run_commands env u (initialization_commands u) ?s5'"
          obtain x6 s6 where I: "?init = (x6, s6)" by (cases ?init)
          have q5: "steps quiet ?s4 s5" using f5 by (simp add: follows_plan_def)
          have q5': "steps quiet s5 ?s5'"
            unfolding set_node_tags_def by (rule steps_record_ev) (simp add: quiet_def)
          have f6: "follows_plan s5 (x6, s6) (command_calls (initialization_commands u))"
            using follows_plan_after_tags [OF run_commands_follows_plan] I by metis
          have f56: "follows_plan ?s4 (x6, s6)
                       (plan_of_mounts env Rsync_up (file_mounts u)
                        @ command_calls (initialization_commands u))"
            by (rule follows_plan_then [OF f5 [unfolded ok5] f6])
          show ?thesis
          proof (cases x6)
            case (Inl e)
            then have eq: "(r, s') = (Inl e, s6)"
              using assms A ok1 W ok3 False M ok5 I
              by (simp add: do_update_def Let_def node_tags_def)
            have ?R
              using run_commands_raised_at [OF steps_trans [OF q5 q5'] I] eq Inl by simp
            then show ?thesis
              using eq follows_plan_fail [OF f56 [unfolded Inl]] by (simp add: full_plan_def)
          next
            case ok6: (Inr y6)
            obtain x7 s7 where S: "run_commands env u (setup_commands u) s6 = (x7, s7)"
              by (cases "run_commands env u (setup_commands u) s6")
            have q6: "steps quiet ?s4 s6" using f56 by (simp add: follows_plan_def)
            have f7: "follows_plan s6 (x7, s7) (command_calls (setup_commands u))"
              using run_commands_follows_plan [of s6 env u "setup_commands u"] S by simp
            have f57: "follows_plan ?s4 (x7, s7)
                         ((plan_of_mounts env Rsync_up (file_mounts u)
                           @ command_calls (initialization_commands u))
                          @ command_calls (setup_commands u))"
              by (rule follows_plan_then [OF f56 [unfolded ok6] f7])
            show ?thesis
            proof (cases x7)
              case (Inl e)
              then have eq: "(r, s') = (Inl e, s7)"
                using assms A ok1 W ok3 False M ok5 I ok6 S
                by (simp add: do_update_def Let_def node_tags_def)
              have ?R
                using run_commands_raised_at [OF q6 S] eq Inl by simp
              then show ?thesis
                using eq follows_plan_fail [OF f57 [unfolded Inl]] by (simp add: full_plan_def)
            next
              case ok7: (Inr y7)
              have q7: "steps quiet ?s4 s7" using f57 by (simp add: follows_plan_def)
              have eq: "run_commands env u (ray_start_commands u) s7 = (r, s')"
                using assms A ok1 W ok3 False M ok5 I ok6 S ok7
                by (simp add: do_update_def Let_def node_tags_def)
              have ?R by (rule run_commands_raised_at [OF q7 eq])
              then show ?thesis
                using eq follows_plan_then [OF f57 [unfolded ok7]
                    run_commands_follows_plan [of s7 env u "ray_start_commands u"]]
                by (simp add: full_plan_def)
            qed
          qed
        qed
        then show ?thesis using False by (simp add: plan_after_read_def)
      qed
      have st4: "steps quiet ?s4 s'" using body by (simp add: follows_plan_def)
      have st34: "steps any_event s3 ?s4" by (rule steps_record_ev) (simp add: any_event_def)
      have n34: "new_events s3 s' = new_events s3 ?s4 @ new_events ?s4 s'"
        by (rule new_events_append [OF st34 st4])
      have st3': "steps any_event s3 s'"
        by (rule steps_trans [OF st34 steps_any [OF st4]])
      have n: "new_events s s' = new_events s s3 @ new_events s3 s'"
        by (rule new_events_append [OF st03 st3'])
      have e: "new_events s s' = new_events s s3 @ Node_tags (node_id u) ?tags # new_events ?s4 s'"
        using n n34 by simp
      have st04: "steps any_event s ?s4" by (rule steps_trans [OF steps_any [OF st03] st34])
      have st0': "steps any_event s s'" by (rule steps_trans [OF steps_any [OF st03] st3'])
      have "\<exists>pre tags s4. new_events s s' = pre @ Node_tags (node_id u) tags # new_events s4 s'
               \<and> list_all before_read pre \<and> steps any_event s s4
               \<and> follows_plan s4 (r, s') (plan_after_read env u tags)
               \<and> (\<forall>e. r = Inl e \<longrightarrow> (\<exists>s1. steps quiet s4 s1 \<and> raised_at env u e s1 s'))"
        using e steps_allD [OF st03] st04 body by blast
      then show ?thesis using st0' by blast
    qed
  qed
qed


lemmas do_update_eval =
  do_update_def wait_ready.simps sync_file_mounts_def run_commands.simps sync_file_mounts_loop.simps
  kube_run_defs node_tags_def set_node_tags_def is_terminated_def record_ev_def
  updater1_def fresh_def quiet_env_def new_events_def NODE_START_WAIT_S_def

lemma do_update_match_run:
  "fst (do_update match_env updater1 fresh) = Inr ()"
  "Node_tags (node_id updater1) [(TAG_RAY_RUNTIME_CONFIG, ''abc123'')]
     \<in> set (new_events fresh (snd (do_update match_env updater1 fresh)))"
  by (simp_all add: do_update_eval match_env_def)

lemma do_update_differ_run:
  "fst (do_update dir_env updater1 fresh) = Inr ()"
  "Node_tags (node_id updater1) [] \<in> set (new_events fresh (snd (do_update dir_env updater1 fresh)))"
  by (simp_all add: do_update_eval dir_env_def)


lemma plan_after_read_match:
  "plan_after_read match_env updater1 [(TAG_RAY_RUNTIME_CONFIG, ''abc123'')] =
     [Call_run (Some ''ray stop''), Call_run (Some ''ray start'')]"
  by (simp add: plan_after_read_def updater1_def command_calls_def)

lemma plan_after_read_differ:
  "plan_after_read dir_env updater1 [] =
     [Call_run (Some ''mkdir -p /app''), Call_rsync_up ''./a'' ''/app/a'',
      Call_run (Some ''mkdir -p /app/b''), Call_rsync_up ''./b/'' ''/app/b/'',
      Call_run (Some ''echo init''), Call_run (Some ''echo setup''),
      Call_run (Some ''ray stop''), Call_run (Some ''ray start'')]"
  using plan_updater1
  by (simp add: plan_after_read_def full_plan_def command_calls_def) (simp add: updater1_def)

lemma do_update_match_probe:
  "transport_calls (before_tags_read (new_events fresh (snd (do_update match_env updater1 fresh)))) =
     [Call_run (Some ''uptime'')]"
  by (simp add: do_update_eval match_env_def before_tags_read_def transport_calls_def)

lemma do_update_differ_probe:
  "transport_calls (before_tags_read (new_events fresh (snd (do_update dir_env updater1 fresh)))) =
     [Call_run (Some ''uptime'')]"
  by (simp add: do_update_eval dir_env_def before_tags_read_def transport_calls_def)

lemma do_update_start_failure:
  "Node_tags (node_id updater1) [(TAG_RAY_RUNTIME_CONFIG, ''abc123'')]
     \<in> set (new_events fresh (snd (do_update match_fail_env updater1 fresh)))"
  "isl (fst (do_update match_fail_env updater1 fresh))"
  "ray_start_commands updater1 = [''ray stop'', ''ray start'']"
  "transport_calls (new_events fresh (snd (do_update match_fail_env updater1 fresh))) =
     [Call_run (Some ''uptime''), Call_run (Some ''ray stop'')]"
  by (simp_all add: do_update_eval match_fail_env_def match_env_def transport_calls_def)


section \<open>\<open>run\<close> and the thread's result code\<close>

text \<open>
  What \<open>do_update\<close> raises is an \<open>Exception\<close> that the handler of \<open>run\<close> can
  format, or the \<open>TimeoutExpired\<close> of \<open>ssh-keygen\<close>.
\<close>

lemma forget_known_host_errors:
  "forget_known_host env host t s = (Inl e, s') \<Longrightarrow> plain_error e \<or> is_TimeoutExpired e"
  by (auto simp: forget_known_host_def Let_def split: option.splits proc_outcome.splits if_splits)

lemma remove_node_from_known_hosts_errors:
  "remove_node_from_known_hosts env u s = (Inl e, s') \<Longrightarrow> plain_error e \<or> is_TimeoutExpired e"
  unfolding remove_node_from_known_hosts_def
  by (auto split: prod.splits sum.splits if_splits
      dest: wait_for_ip_plain forget_known_host_errors)

lemma wait_ready_errors: "fst (wait_ready env u d s) = Inl e \<Longrightarrow> plain_error e"
proof (induction env u d s rule: wait_ready.induct)
  case (1 env u d s)
  let ?s1 = "snd (is_terminated env (node_id u) s)"
  show ?case
  proof (cases "clock s < d \<and> \<not> fst (is_terminated env (node_id u) s)")
    case False
    then show ?thesis
      using "1.prems" by (subst (asm) wait_ready.simps) auto
  next
    case True
    obtain x s2 where c: "cmd_runner_run env (cmd_runner u) (Some ''uptime'') 5 False False [] False ?s1 = (x, s2)"
      by (cases "cmd_runner_run env (cmd_runner u) (Some ''uptime'') 5 False False [] False ?s1")
    show ?thesis
    proof (cases x)
      case (Inr y)
      then show ?thesis
        using "1.prems" True c by (subst (asm) wait_ready.simps) auto
    next
      case (Inl e')
      have p: "is_Exception e'" "\<not> (has_cmd e' \<and> \<not> has_returncode e')"
        using cmd_runner_run_plain [of env "cmd_runner u" _ _ _ _ _ ?s1 e' s2] c Inl
        by (auto simp: plain_error_def)
      have "wait_ready env u d s = wait_ready env u d (sleep env READY_CHECK_INTERVAL s2)"
        using True c Inl p by (subst wait_ready.simps) auto
      then show ?thesis
        using "1.IH" [OF True c [symmetric] Inl p] "1.prems" by simp
    qed
  qed
qed

lemma apply_sync_plain: "apply_sync env u sc a b s = (Inl e, s') \<Longrightarrow> plain_error e"
  unfolding apply_sync_def rsync_up_def rsync_down_def
    KubernetesCommandRunner_run_rsync_up_def KubernetesCommandRunner_run_rsync_down_def
    SSHCommandRunner_run_rsync_up_def SSHCommandRunner_run_rsync_down_def
  by (auto split: sync_cmd.splits command_runner.splits prod.splits sum.splits if_splits
      dest: check_call_plain set_ssh_ip_if_required_plain)

lemma sync_file_mounts_loop_plain:
  "sync_file_mounts_loop env u sc ms s = (Inl e, s') \<Longrightarrow> plain_error e"
  by (induction ms arbitrary: s)
     (auto split: if_splits prod.splits sum.splits dest: cmd_runner_run_plain apply_sync_plain)

lemma run_commands_plain: "run_commands env u cs s = (Inl e, s') \<Longrightarrow> plain_error e"
  by (induction cs arbitrary: s)
     (auto split: prod.splits sum.splits dest: cmd_runner_run_plain)

lemma wait_ready_plain: "wait_ready env u d s = (Inl e, s') \<Longrightarrow> plain_error e"
  using wait_ready_errors [of env u d s e] by simp

lemma do_update_errors:
  "do_update env u s = (Inl e, s') \<Longrightarrow> plain_error e \<or> is_TimeoutExpired e"
  unfolding do_update_def Let_def sync_file_mounts_def
  by (auto split: prod.splits sum.splits if_splits
      dest: remove_node_from_known_hosts_errors sync_file_mounts_loop_plain run_commands_plain
        wait_ready_plain)

lemma error_str_plain: "plain_error e \<Longrightarrow> \<exists>msg. error_str e = Inr msg"
  by (cases e) (simp_all add: plain_error_def)

lemma error_str_TimeoutExpired: "is_TimeoutExpired e \<Longrightarrow> \<exists>e'. error_str e = Inl e'"
  by (cases e) simp_all

lemma do_update_steps: "do_update env u s = (r, s') \<Longrightarrow> steps any_event s s'"
  using do_update_shape by blast

lemma run_exitcode:
  assumes "run env u s = (r, s')"
  shows "exitcode s' = (if isl r then exitcode s else Some 0)"
proof -
  obtain x s1 where d: "do_update env u s = (x, s1)" by (cases "do_update env u s")
  have "exitcode s1 = exitcode s" by (rule steps_exitcodeD [OF do_update_steps [OF d]])
  then show ?thesis
    using assms d
    by (auto simp: run_def set_node_tags_def record_ev_def split: sum.splits if_splits)
qed

lemma run_status_written:
  assumes "run env u s = (r, s')"
    and "\<not> (\<exists>e. fst (do_update env u s) = Inl e \<and> is_TimeoutExpired e)"
  shows "(r = Inr () \<and>
          last (trace s') =
            Set_node_tags (node_id u)
              [(TAG_RAY_NODE_STATUS, STATUS_UP_TO_DATE), (TAG_RAY_RUNTIME_CONFIG, runtime_hash u)])
     \<or> (isl r \<and> r = fst (do_update env u s) \<and>
         last (trace s') = Set_node_tags (node_id u) [(TAG_RAY_NODE_STATUS, STATUS_UPDATE_FAILED)])"
proof -
  obtain x s1 where d: "do_update env u s = (x, s1)" by (cases "do_update env u s")
  show ?thesis
  proof (cases x)
    case (Inr y)
    then show ?thesis
      using assms(1) d by (auto simp: run_def set_node_tags_def record_ev_def)
  next
    case (Inl e)
    have "plain_error e" using do_update_errors [of env u s e s1] d Inl assms(2) by auto
    then obtain msg where "is_Exception e" "error_str e = Inr msg"
      using error_str_plain by (auto simp: plain_error_def)
    then show ?thesis
      using assms(1) d Inl by (auto simp: run_def set_node_tags_def record_ev_def)
  qed
qed

text \<open>
  C2 fails on the code at this input. The known-hosts cleanup is on and \<open>ssh-keygen\<close>
  needs four seconds, one more than its timeout. \<open>forget_known_host\<close> raises
  \<open>subprocess.TimeoutExpired\<close>, which the \<open>except TimeoutError\<close> clause does not catch;
  in the handler of \<open>run\<close> the exception has a \<open>cmd\<close> but no \<open>returncode\<close>, so
  formatting it raises \<open>AttributeError\<close> before the status is set. \<open>run\<close> ends with
  that error and the log holds no write of the node's tags at all. In every other run the
  last entry of the log is the status write the claim describes (\<open>run_status_written\<close>).
\<close>

theorem run_keygen_timeout:
  "fst (run slow_keygen_env updater3 fresh) = Inl (AttributeError ''object has no attribute returncode'')
   \<and> filter is_tag_event (trace (snd (run slow_keygen_env updater3 fresh))) = []
   \<and> trace (snd (run slow_keygen_env updater3 fresh)) =
       [Is_terminated ''node-1'' False, External_ip ''node-1'' (Some ''10.0.0.7''),
        Subprocess_run (Argv [''ssh-keygen'', ''-R'', ''10.0.0.7'']) 3 (Exited 0 [])]"
  by (simp add: run_def do_update_def remove_node_from_known_hosts_def wait_for_ip_def
      wait_for_ip_loop.simps forget_known_host_def truthy_def NODE_START_WAIT_S_def
      is_terminated_def get_ip_def external_ip_def record_ev_def Let_def
      slow_keygen_env_def updater3_def updater1_def fresh_def quiet_env_def)

text \<open>
  C9, as amended. \<open>NodeUpdaterThread.__init__\<close> sets \<open>exitcode\<close> to -1. After
  \<open>run\<close> it is 0 when \<open>run\<close> returned and still -1 when \<open>run\<close> raised: a failure
  leaves the initial value in place.
\<close>

theorem NodeUpdaterThread_exitcode:
  "exitcode (NodeUpdaterThread_init s) = Some (- 1)
   \<and> exitcode (snd (run env u (NodeUpdaterThread_init s))) =
       (if isl (fst (run env u (NodeUpdaterThread_init s))) then Some (- 1) else Some 0)"
  using run_exitcode [of env u "NodeUpdaterThread_init s" "fst (run env u (NodeUpdaterThread_init s))"
      "snd (run env u (NodeUpdaterThread_init s))"]
  by (simp add: NodeUpdaterThread_init_def)

text \<open>
  C9 as stated fails: a run that raises (here on a missing local path, after the status
  \<open>update_failed\<close> was written) leaves \<open>exitcode\<close> at -1, the value it had before the
  run, and the error leaves \<open>run\<close>.
\<close>

theorem NodeUpdaterThread_failure_counterexample:
  "fst (run missing_env updater2 (NodeUpdaterThread_init fresh)) = Inl (AssertionError ''./missing'')
   \<and> exitcode (NodeUpdaterThread_init fresh) = Some (- 1)
   \<and> exitcode (snd (run missing_env updater2 (NodeUpdaterThread_init fresh))) = Some (- 1)
   \<and> last (trace (snd (run missing_env updater2 (NodeUpdaterThread_init fresh)))) =
       Set_node_tags ''node-1'' [(TAG_RAY_NODE_STATUS, STATUS_UPDATE_FAILED)]"
  by (simp add: run_def do_update_eval updater2_def missing_env_def NodeUpdaterThread_init_def)

end
